theory Spec2Isabelle
  imports Main "HOL-Library.AList" "HOL-Library.Sublist"
begin

section \<open>Python values, dictionaries and strings\<close>

text \<open>
  The scraper passes its records around as Python dictionaries whose values are strings,
  numbers, \<open>None\<close>, lists or further dictionaries (the same shapes \<open>json.loads\<close>
  yields). A dictionary is an association list in insertion order; assigning to a key
  that is present keeps its position, assigning to a new key appends it, which is what
  \<open>AList.update\<close> does. A float is carried by its \<open>repr\<close> text: the program never
  computes with one, it only stores, tests and prints it. A string is a list of 8-bit
  characters, the code points 0 to 255.
\<close>

datatype pyval =
    PNone
  | PBool bool
  | PInt int
  | PFloat string
  | PStr string
  | PList "pyval list"
  | PDict "(string \<times> pyval) list"

type_synonym pydict = "(string \<times> pyval) list"

text \<open>Truth value testing, as \<open>not x\<close>, \<open>x or y\<close> and \<open>if x\<close> apply it.\<close>

fun truthy :: "pyval \<Rightarrow> bool" where
  "truthy PNone = False"
| "truthy (PBool b) = b"
| "truthy (PInt i) = (i \<noteq> 0)"
| "truthy (PFloat r) = (r \<noteq> ''0.0'' \<and> r \<noteq> ''-0.0'')"
| "truthy (PStr s) = (s \<noteq> [])"
| "truthy (PList xs) = (xs \<noteq> [])"
| "truthy (PDict kvs) = (kvs \<noteq> [])"

definition py_or :: "pyval \<Rightarrow> pyval \<Rightarrow> pyval" where
  "py_or a b = (if truthy a then a else b)"

text \<open>\<open>d.get(k)\<close> and \<open>d.get(k, default)\<close>.\<close>

definition dict_get :: "pydict \<Rightarrow> string \<Rightarrow> pyval" where
  "dict_get d k = (case map_of d k of None \<Rightarrow> PNone | Some v \<Rightarrow> v)"

definition dict_get_default :: "pydict \<Rightarrow> string \<Rightarrow> pyval \<Rightarrow> pyval" where
  "dict_get_default d k dflt = (case map_of d k of None \<Rightarrow> dflt | Some v \<Rightarrow> v)"

definition dict_set :: "pydict \<Rightarrow> string \<Rightarrow> pyval \<Rightarrow> pydict" where
  "dict_set d k v = AList.update k v d"

text \<open>
  White space as \<open>str.strip()\<close>, \<open>str.isspace()\<close> and the pattern \<open>\s\<close> know it: tab, line
  feed, vertical tab, form feed, carriage return, the four separators 0x1C..0x1F, the
  blank, the next-line control 0x85 and the no-break space 0xA0. \<open>str.strip()\<close> removes
  such characters at both ends, \<open>str.strip(chars)\<close> the given ones.
\<close>

definition py_isspace :: "char \<Rightarrow> bool" where
  "py_isspace c =
     (c = CHR 0x09 \<or> c = CHR 0x0A \<or> c = CHR 0x0B \<or> c = CHR 0x0C \<or> c = CHR 0x0D \<or>
      c = CHR 0x1C \<or> c = CHR 0x1D \<or> c = CHR 0x1E \<or> c = CHR 0x1F \<or> c = CHR 0x20 \<or>
      c = CHR 0x85 \<or> c = CHR 0xA0)"

definition strip_with :: "(char \<Rightarrow> bool) \<Rightarrow> string \<Rightarrow> string" where
  "strip_with p s = rev (dropWhile p (rev (dropWhile p s)))"

definition py_strip :: "string \<Rightarrow> string" where
  "py_strip s = strip_with py_isspace s"

definition py_strip_chars :: "string \<Rightarrow> string \<Rightarrow> string" where
  "py_strip_chars cs s = strip_with (\<lambda>c. c \<in> set cs) s"

text \<open>
  Letters. \<open>is_upper\<close>, \<open>is_lower\<close> and \<open>is_digit\<close> are the ranges \<open>A-Z\<close>, \<open>a-z\<close> and
  \<open>0-9\<close> (the last is also all that \<open>\d\<close> matches among the 256 characters).
  \<open>to_lower\<close> is \<open>str.lower()\<close> on one character: besides \<open>A-Z\<close> it maps 0xC0..0xDE,
  the multiplication sign 0xD7 apart, to 0xE0..0xFE. \<open>to_upper\<close> is the upper-case
  mapping of single characters as the \<open>re\<close> module applies it: \<open>a-z\<close> and 0xE0..0xFE, the
  division sign 0xF7 apart; the upper-case forms of 0xB5 and 0xFF are code points above
  255 and that of 0xDF is two letters, so these three stay.
\<close>

definition is_upper :: "char \<Rightarrow> bool" where
  "is_upper c = (65 \<le> (of_char c :: nat) \<and> (of_char c :: nat) \<le> 90)"

definition is_lower :: "char \<Rightarrow> bool" where
  "is_lower c = (97 \<le> (of_char c :: nat) \<and> (of_char c :: nat) \<le> 122)"

definition is_digit :: "char \<Rightarrow> bool" where
  "is_digit c = (48 \<le> (of_char c :: nat) \<and> (of_char c :: nat) \<le> 57)"

definition to_lower :: "char \<Rightarrow> char" where
  "to_lower c =
     (if is_upper c \<or> (192 \<le> (of_char c :: nat) \<and> (of_char c :: nat) \<le> 222 \<and> c \<noteq> CHR 0xD7)
      then char_of (of_char c + (32::nat)) else c)"

definition to_upper :: "char \<Rightarrow> char" where
  "to_upper c =
     (if is_lower c \<or> (224 \<le> (of_char c :: nat) \<and> (of_char c :: nat) \<le> 254 \<and> c \<noteq> CHR 0xF7)
      then char_of (of_char c - (32::nat)) else c)"

definition py_lower :: "string \<Rightarrow> string" where
  "py_lower s = map to_lower s"

text \<open>
  \<open>str(v)\<close> and \<open>repr(v)\<close> of a value. The \<open>repr\<close> of a string prefers single quotes,
  takes double quotes when the text holds a single quote and no double quote, and
  escapes the backslash, the chosen quote, tab, line feed, carriage return and, as
  \<open>\xNN\<close>, the characters that are not printable: those below 0x20, 0x7F to 0xA0 and
  the soft hyphen 0xAD.
\<close>

definition digit_char :: "nat \<Rightarrow> char" where
  "digit_char d = char_of (48 + d)"

function nat_to_dec :: "nat \<Rightarrow> string" where
  "nat_to_dec n = (if n < 10 then [digit_char n] else nat_to_dec (n div 10) @ [digit_char (n mod 10)])"
  by pat_completeness auto
termination
  by (relation "measure id") auto

declare nat_to_dec.simps [simp del]

definition int_to_dec :: "int \<Rightarrow> string" where
  "int_to_dec i = (if i < 0 then CHR ''-'' # nat_to_dec (nat (- i)) else nat_to_dec (nat i))"

definition hex_char :: "nat \<Rightarrow> char" where
  "hex_char d = (if d < 10 then char_of (48 + d) else char_of (87 + d))"

definition repr_char :: "char \<Rightarrow> char \<Rightarrow> string" where
  "repr_char quote c =
     (if c = CHR 0x5C then [CHR 0x5C, CHR 0x5C]
      else if c = quote then [CHR 0x5C, quote]
      else if c = CHR 0x09 then [CHR 0x5C, CHR ''t'']
      else if c = CHR 0x0A then [CHR 0x5C, CHR ''n'']
      else if c = CHR 0x0D then [CHR 0x5C, CHR ''r'']
      else if (of_char c :: nat) < 32 \<or> (127 \<le> (of_char c :: nat) \<and> (of_char c :: nat) \<le> 160)
              \<or> (of_char c :: nat) = 173
        then [CHR 0x5C, CHR ''x'', hex_char (of_char c div 16), hex_char (of_char c mod 16)]
      else [c])"

definition repr_str :: "string \<Rightarrow> string" where
  "repr_str s =
     (let quote = (if CHR 0x27 \<in> set s \<and> CHR 0x22 \<notin> set s then CHR 0x22 else CHR 0x27)
      in quote # concat (map (repr_char quote) s) @ [quote])"

fun join_comma :: "string list \<Rightarrow> string" where
  "join_comma [] = []"
| "join_comma [x] = x"
| "join_comma (x # y # ys) = x @ '', '' @ join_comma (y # ys)"

fun py_repr :: "pyval \<Rightarrow> string" where
  "py_repr PNone = ''None''"
| "py_repr (PBool b) = (if b then ''True'' else ''False'')"
| "py_repr (PInt i) = int_to_dec i"
| "py_repr (PFloat r) = r"
| "py_repr (PStr s) = repr_str s"
| "py_repr (PList xs) = ''['' @ join_comma (map py_repr xs) @ '']''"
| "py_repr (PDict kvs) =
     ''{'' @ join_comma (map (\<lambda>kv. repr_str (fst kv) @ '': '' @ py_repr (snd kv)) kvs) @ ''}''"

definition py_str :: "pyval \<Rightarrow> string" where
  "py_str v = (case v of PStr s \<Rightarrow> s | _ \<Rightarrow> py_repr v)"

text \<open>
  An exception is its class name and its \<open>args\<close>. \<open>repr(e)\<close> and \<open>str(e)\<close> are those of
  \<open>BaseException\<close>, which the exceptions met here inherit (Playwright's \<open>Error\<close> and
  \<open>TimeoutError\<close>, \<open>AttributeError\<close>, \<open>MemoryError\<close>): the class name followed by the
  arguments in parentheses, and the one argument as a string (nothing for no argument,
  the tuple for several). \<open>KeyError\<close> has its own \<open>str\<close>: the \<open>repr\<close> of the key.
\<close>

datatype error = Exception string "pyval list"

fun repr_error :: "error \<Rightarrow> string" where
  "repr_error (Exception cls args) = cls @ ''('' @ join_comma (map py_repr args) @ '')''"

fun str_error :: "error \<Rightarrow> string" where
  "str_error (Exception cls args) =
     (case args of
        [] \<Rightarrow> []
      | [a] \<Rightarrow> if cls = ''KeyError'' then py_repr a else py_str a
      | _ \<Rightarrow> ''('' @ join_comma (map py_repr args) @ '')'')"

definition KeyError :: "string \<Rightarrow> error" where
  "KeyError k = Exception ''KeyError'' [PStr k]"

text \<open>
  \<open>v.strip()\<close> on a value: only a string has the method; any other value raises
  \<open>AttributeError\<close> with the message \<open>'<type>' object has no attribute 'strip'\<close>.
\<close>

fun type_name :: "pyval \<Rightarrow> string" where
  "type_name PNone = ''NoneType''"
| "type_name (PBool b) = ''bool''"
| "type_name (PInt i) = ''int''"
| "type_name (PFloat r) = ''float''"
| "type_name (PStr s) = ''str''"
| "type_name (PList xs) = ''list''"
| "type_name (PDict kvs) = ''dict''"

definition no_attribute :: "pyval \<Rightarrow> string \<Rightarrow> error" where
  "no_attribute v attr =
     Exception ''AttributeError''
       [PStr ([CHR 0x27] @ type_name v @ [CHR 0x27] @ '' object has no attribute '' @
              [CHR 0x27] @ attr @ [CHR 0x27])]"

fun val_strip :: "pyval \<Rightarrow> error + string" where
  "val_strip (PStr s) = Inr (py_strip s)"
| "val_strip v = Inl (no_attribute v ''strip'')"

section \<open>The run: categories, aggregation and statistics (main.py)\<close>

text \<open>
  \<open>load_categories_from_nav\<close> builds every category as a dictionary with exactly the
  keys \<open>name\<close>, \<open>url\<close> and \<open>description\<close>, each a stripped string, so a category is a
  record of three strings. An item record (a row) stays a dictionary: its keys grow
  while it is enriched.
\<close>

record category =
  cat_name :: string
  cat_url :: string
  cat_description :: string

record cat_stat =
  stat_category :: string
  items_exported :: nat
  stat_csv :: "string option"
  stat_xlsx :: "string option"

record run_config =
  export_csv :: bool
  export_xlsx :: bool
  ts :: string

text \<open>
  The variables of \<open>run_shopify_actor\<close> that the category loop updates. \<open>dataset\<close> is the
  log of \<open>Actor.push_data\<close> calls and \<open>exports\<close> that of \<open>export_files_to_kv\<close> calls
  (the rows and the two keys handed over); both sinks are outside the program.
\<close>

record run_state =
  pushed :: nat
  seen_urls :: "string set"
  skipped_dupes :: nat
  all_results_for_files :: "pydict list"
  category_stats :: "cat_stat list"
  generated_files :: "string list"
  dataset :: "pydict list"
  exports :: "(pydict list \<times> string \<times> string) list"

definition initial_state :: run_state where
  "initial_state =
     \<lparr>pushed = 0, seen_urls = {}, skipped_dupes = 0, all_results_for_files = [],
      category_stats = [], generated_files = [], dataset = [], exports = []\<rparr>"

text \<open>
  \<open>url = (app_record.get("products_url") or app_record.get("product_url") or "").strip()\<close>
\<close>

definition record_url :: "pydict \<Rightarrow> error + string" where
  "record_url app_record =
     val_strip (py_or (py_or (dict_get app_record ''products_url'')
                             (dict_get app_record ''product_url'')) (PStr []))"

text \<open>
  The loop \<open>for app_record in apps\<close> of one category, on the run's state and the
  category's \<open>per_cat_results\<close>. An exception leaves the loop (and the run).
\<close>

fun app_loop :: "run_state \<times> pydict list \<Rightarrow> pydict list \<Rightarrow> error + run_state \<times> pydict list" where
  "app_loop (st, per_cat_results) [] = Inr (st, per_cat_results)"
| "app_loop (st, per_cat_results) (app_record # apps) =
     (case record_url app_record of
        Inl e \<Rightarrow> Inl e
      | Inr url \<Rightarrow>
          if url \<noteq> [] \<and> url \<in> seen_urls st
          then app_loop (st\<lparr>skipped_dupes := skipped_dupes st + 1\<rparr>, per_cat_results) apps
          else
            let st1 = (if url \<noteq> [] then st\<lparr>seen_urls := insert url (seen_urls st)\<rparr> else st);
                st2 = st1\<lparr>dataset := dataset st1 @ [app_record],
                          pushed := pushed st1 + 1,
                          all_results_for_files := all_results_for_files st1 @ [app_record]\<rparr>
            in app_loop (st2, per_cat_results @ [app_record]) apps)"

text \<open>
  \<open>_slug\<close>: strip, lower-case, every maximal run of characters outside \<open>[a-z0-9]\<close>
  becomes one dash, dashes stripped at both ends, \<open>"category"\<close> when nothing is left.
\<close>

definition is_slug_char :: "char \<Rightarrow> bool" where
  "is_slug_char c = (is_lower c \<or> is_digit c)"

fun sub_runs :: "bool \<Rightarrow> string \<Rightarrow> string" where
  "sub_runs in_run [] = []"
| "sub_runs in_run (c # cs) =
     (if is_slug_char c then c # sub_runs False cs
      else if in_run then sub_runs True cs
      else CHR ''-'' # sub_runs True cs)"

definition slug_of :: "string \<Rightarrow> string" where
  "slug_of s =
     (let t = py_strip_chars ''-'' (sub_runs False (py_lower (py_strip s)))
      in if t \<noteq> [] then t else ''category'')"

text \<open>
  One pass of \<open>for cat in categories\<close>, given what \<open>scrape_shopify_category\<close> returned
  for the category (or the exception it raised, which nothing in the run catches).
\<close>

definition category_step ::
  "run_config \<Rightarrow> run_state \<Rightarrow> category \<Rightarrow> error + pydict list \<Rightarrow> error + run_state" where
  "category_step cfg st cat scraped =
     (case scraped of
        Inl e \<Rightarrow> Inl e
      | Inr apps \<Rightarrow>
          let cat_slug = slug_of (if cat_name cat \<noteq> [] then cat_name cat else ''category'')
          in case app_loop (st, []) apps of
               Inl e \<Rightarrow> Inl e
             | Inr (st1, per_cat_results) \<Rightarrow>
                 if (export_csv cfg \<or> export_xlsx cfg) \<and> per_cat_results \<noteq> []
                 then
                   let per_cat_csv = ''OUTPUT_'' @ cat_slug @ ''_'' @ ts cfg @ ''.csv'';
                       per_cat_xlsx = ''OUTPUT_'' @ cat_slug @ ''_'' @ ts cfg @ ''.xlsx''
                   in Inr (st1\<lparr>
                        exports := exports st1 @ [(per_cat_results, per_cat_csv, per_cat_xlsx)],
                        generated_files := generated_files st1
                           @ (if export_csv cfg then [per_cat_csv] else [])
                           @ (if export_xlsx cfg then [per_cat_xlsx] else []),
                        category_stats := category_stats st1 @
                           [\<lparr>stat_category = cat_name cat,
                             items_exported = length per_cat_results,
                             stat_csv = (if export_csv cfg then Some per_cat_csv else None),
                             stat_xlsx = (if export_xlsx cfg then Some per_cat_xlsx else None)\<rparr>]\<rparr>)
                 else Inr st1)"

fun category_loop ::
  "run_config \<Rightarrow> run_state \<Rightarrow> (category \<times> (error + pydict list)) list \<Rightarrow> error + run_state" where
  "category_loop cfg st [] = Inr st"
| "category_loop cfg st ((cat, scraped) # cats) =
     (case category_step cfg st cat scraped of
        Inl e \<Rightarrow> Inl e
      | Inr st1 \<Rightarrow> category_loop cfg st1 cats)"

text \<open>
  The run summary, built after the loop from the final state. An exception inside the
  loop passes the \<open>try/finally\<close> and no summary is written.
\<close>

record run_summary =
  sum_categories_selected :: "string list"
  sum_skipped_duplicates :: nat
  sum_pushed_to_dataset :: nat
  sum_per_category :: "cat_stat list"
  sum_combined_items_exported :: nat
  sum_files_generated :: "string list"

definition run_shopify_actor ::
  "run_config \<Rightarrow> (category \<times> (error + pydict list)) list \<Rightarrow> error + run_summary" where
  "run_shopify_actor cfg cats =
     (case category_loop cfg initial_state cats of
        Inl e \<Rightarrow> Inl e
      | Inr st \<Rightarrow>
          let combined_csv_key = ''OUTPUT_'' @ ts cfg @ ''.csv'';
              combined_xlsx_key = ''OUTPUT_'' @ ts cfg @ ''.xlsx'';
              files =
                (if (export_csv cfg \<or> export_xlsx cfg) \<and> all_results_for_files st \<noteq> []
                 then generated_files st
                        @ (if export_csv cfg then [combined_csv_key] else [])
                        @ (if export_xlsx cfg then [combined_xlsx_key] else [])
                 else generated_files st)
          in Inr \<lparr>sum_categories_selected = map (\<lambda>(c, _). cat_name c) cats,
                  sum_skipped_duplicates = skipped_dupes st,
                  sum_pushed_to_dataset = pushed st,
                  sum_per_category = category_stats st,
                  sum_combined_items_exported = length (all_results_for_files st),
                  sum_files_generated = files\<rparr>)"

text \<open>The canonical URL a record is deduplicated by; empty when it has none.\<close>

definition url_of :: "pydict \<Rightarrow> string" where
  "url_of r = (case record_url r of Inl e \<Rightarrow> [] | Inr u \<Rightarrow> u)"


text \<open>
  Notions the statements about the loop use. \<open>fed_records\<close> is the sequence of records
  the run's loop body sees, category after category. \<open>first_seen S rs\<close> keeps of \<open>rs\<close>
  every record with no URL and the first record of every URL outside \<open>S\<close>.
  \<open>dup_positions S rs\<close> are the positions of \<open>rs\<close> holding a record whose URL is not empty
  and is in \<open>S\<close> or belongs to a record at an earlier position.
\<close>

definition fed_records :: "(category \<times> (error + pydict list)) list \<Rightarrow> pydict list" where
  "fed_records cats = concat (map (\<lambda>(c, s). case s of Inl e \<Rightarrow> [] | Inr apps \<Rightarrow> apps) cats)"

fun first_seen :: "string set \<Rightarrow> pydict list \<Rightarrow> pydict list" where
  "first_seen S [] = []"
| "first_seen S (r # rs) =
     (if url_of r \<noteq> [] \<and> url_of r \<in> S then first_seen S rs
      else r # first_seen (insert (url_of r) S) rs)"

definition dup_positions :: "string set \<Rightarrow> pydict list \<Rightarrow> nat list" where
  "dup_positions S rs =
     filter (\<lambda>i. url_of (rs ! i) \<noteq> [] \<and>
                 (url_of (rs ! i) \<in> S \<or> url_of (rs ! i) \<in> url_of ` set (take i rs)))
            [0..<length rs]"

text \<open>A small run used to exercise the statements: two categories, five records.\<close>

definition ex_cfg :: run_config where
  "ex_cfg = \<lparr>export_csv = True, export_xlsx = False, ts = ''20260101_000000''\<rparr>"

definition ex_marketing :: category where
  "ex_marketing = \<lparr>cat_name = ''Marketing'',
     cat_url = ''https://apps.shopify.com/categories/marketing'', cat_description = []\<rparr>"

definition ex_sales :: category where
  "ex_sales = \<lparr>cat_name = ''Sales'',
     cat_url = ''https://apps.shopify.com/categories/sales'', cat_description = []\<rparr>"

definition row_x :: pydict where
  "row_x = [(''Recommended products'', PStr ''App X''),
            (''products_url'', PStr ''https://apps.shopify.com/app-x'')]"

definition row_y :: pydict where
  "row_y = [(''Recommended products'', PStr ''App Y''),
            (''products_url'', PStr ''https://apps.shopify.com/app-y'')]"

definition row_x_again :: pydict where
  "row_x_again = [(''Recommended products'', PStr ''App X (sales)''),
                  (''products_url'', PStr ''https://apps.shopify.com/app-x'')]"

definition row_blank :: pydict where
  "row_blank = [(''Recommended products'', PStr ''Blank''), (''products_url'', PStr [])]"

definition row_nokey :: pydict where
  "row_nokey = [(''Recommended products'', PStr ''No key'')]"

definition ex_cats :: "(category \<times> (error + pydict list)) list" where
  "ex_cats = [(ex_marketing, Inr [row_x, row_blank, row_y]),
              (ex_sales, Inr [row_x_again, row_nokey])]"

definition ex_final :: run_state where
  "ex_final =
     \<lparr>pushed = 4,
      seen_urls = {''https://apps.shopify.com/app-y'', ''https://apps.shopify.com/app-x''},
      skipped_dupes = 1,
      all_results_for_files = [row_x, row_blank, row_y, row_nokey],
      category_stats =
        [\<lparr>stat_category = ''Marketing'', items_exported = 3,
          stat_csv = Some ''OUTPUT_marketing_20260101_000000.csv'', stat_xlsx = None\<rparr>,
         \<lparr>stat_category = ''Sales'', items_exported = 1,
          stat_csv = Some ''OUTPUT_sales_20260101_000000.csv'', stat_xlsx = None\<rparr>],
      generated_files =
        [''OUTPUT_marketing_20260101_000000.csv'', ''OUTPUT_sales_20260101_000000.csv''],
      dataset = [row_x, row_blank, row_y, row_nokey],
      exports =
        [([row_x, row_blank, row_y], ''OUTPUT_marketing_20260101_000000.csv'',
          ''OUTPUT_marketing_20260101_000000.xlsx''),
         ([row_nokey], ''OUTPUT_sales_20260101_000000.csv'',
          ''OUTPUT_sales_20260101_000000.xlsx'')]\<rparr>"

section \<open>The listing extractor (shopify/products_by_category.py)\<close>

text \<open>
  \<open>str.replace(old, new)\<close>: occurrences of \<open>old\<close> are replaced from left to right and
  do not overlap; an empty \<open>old\<close> matches before every character and at the end.
\<close>

function py_replace :: "string \<Rightarrow> string \<Rightarrow> string \<Rightarrow> string" where
  "py_replace old new s =
     (if old = [] then new @ concat (map (\<lambda>c. c # new) s)
      else if s = [] then []
      else if prefix old s then new @ py_replace old new (drop (length old) s)
      else hd s # py_replace old new (tl s))"
  by pat_completeness auto
termination
  by (relation "measure (\<lambda>(old, new, s). length s)") auto

declare py_replace.simps [simp del]

text \<open>\<open>s.split(c)[0]\<close>: the text before the first \<open>c\<close>.\<close>

definition before_first :: "char \<Rightarrow> string \<Rightarrow> string" where
  "before_first c s = takeWhile (\<lambda>d. d \<noteq> c) s"

text \<open>
  \<open>str.title()\<close>: a character takes its title form when the character before it is not
  cased (or there is none) and its lower-case form otherwise. The cased characters are
  the letters of either case, the ordinal indicators 0xAA and 0xBA and the micro sign
  0xB5. The title form is the upper-case form, but for 0xDF it is the two letters \<open>Ss\<close>.
\<close>

definition is_cased :: "char \<Rightarrow> bool" where
  "is_cased c =
     (is_upper c \<or> is_lower c \<or> c = CHR 0xAA \<or> c = CHR 0xB5 \<or> c = CHR 0xBA \<or>
      (192 \<le> (of_char c :: nat) \<and> c \<noteq> CHR 0xD7 \<and> c \<noteq> CHR 0xF7))"

definition title_char :: "char \<Rightarrow> string" where
  "title_char c = (if c = CHR 0xDF then ''Ss'' else [to_upper c])"

fun title_from :: "bool \<Rightarrow> string \<Rightarrow> string" where
  "title_from prev_cased [] = []"
| "title_from prev_cased (c # cs) =
     (if prev_cased then [to_lower c] else title_char c) @ title_from (is_cased c) cs"

definition py_title :: "string \<Rightarrow> string" where
  "py_title s = title_from False s"

text \<open>
  What the extractor reads from the category page: whether \<open>page.goto\<close> raised, how many
  headings match, the links of the section around the heading (when there is such a
  section), those of the heading's parent, and those of the section's next sibling.
  A link is its \<open>href\<close> attribute (possibly absent) and its inner text.
\<close>

record link =
  link_href :: "string option"
  link_text :: string

record listing_page =
  goto_raises :: "error option"
  h2_count :: nat
  section_links :: "link list option"
  parent_links :: "link list"
  sibling_links :: "link list"

definition store_prefix :: string where
  "store_prefix = ''https://apps.shopify.com/''"

definition reserved_slugs :: "string set" where
  "reserved_slugs = {''categories'', ''pricing'', ''blog'', ''partners''}"

text \<open>
  Lines 52 and 53: the slug of an \<open>href\<close>, and the canonical item URL built from it;
  \<open>None\<close> where the loop says \<open>continue\<close> (foreign prefix, empty or reserved slug).
\<close>

definition href_slug :: "string \<Rightarrow> string" where
  "href_slug href =
     py_strip (before_first (CHR ''/'')
       (py_strip_chars ''/'' (before_first (CHR ''?'') (py_replace store_prefix [] href))))"

definition canonical_url :: "string \<Rightarrow> string option" where
  "canonical_url href =
     (if \<not> prefix store_prefix href then None
      else let slug = href_slug href
           in if slug = [] \<or> slug \<in> reserved_slugs then None
              else Some (store_prefix @ slug))"

definition make_row :: "category \<Rightarrow> string \<Rightarrow> string \<Rightarrow> pydict" where
  "make_row cat name product_url =
     [(''Apps category'', PStr (py_strip (cat_name cat))),
      (''apps_url'', PStr (py_strip (cat_url cat))),
      (''description'', PStr (py_strip (cat_description cat))),
      (''Recommended products'', PStr name),
      (''products_url'', PStr product_url),
      (''Product_description'', PStr []),
      (''Price'', PStr []),
      (''rating'', PStr []),
      (''reviews_count'', PStr [])]"

definition link_name :: "link \<Rightarrow> string \<Rightarrow> string" where
  "link_name a href =
     (let name = py_strip (link_text a)
      in if name = [] \<or> length name < 2
         then py_title (py_replace ''-'' '' '' (href_slug href))
         else name)"

text \<open>The loop \<open>for i in range(count_links)\<close> on \<open>seen\<close> and \<open>rows\<close>.\<close>

fun link_loop :: "category \<Rightarrow> int \<Rightarrow> string set \<times> pydict list \<Rightarrow> link list \<Rightarrow> pydict list" where
  "link_loop cat limit (seen, rows) [] = rows"
| "link_loop cat limit (seen, rows) (a # links) =
     (let href = (case link_href a of None \<Rightarrow> [] | Some h \<Rightarrow> h)
      in case canonical_url href of
           None \<Rightarrow> link_loop cat limit (seen, rows) links
         | Some product_url \<Rightarrow>
             if product_url \<in> seen then link_loop cat limit (seen, rows) links
             else
               let rows1 = rows @ [make_row cat (link_name a href) product_url]
               in if int (length rows1) \<ge> limit then rows1
                  else link_loop cat limit (insert product_url seen, rows1) links)"

definition extract_products_from_category ::
  "listing_page \<Rightarrow> category \<Rightarrow> int \<Rightarrow> error + pydict list" where
  "extract_products_from_category page cat limit =
     (case goto_raises page of
        Some e \<Rightarrow> Inl e
      | None \<Rightarrow>
          if h2_count page = 0 then Inr []
          else
            let links = (case section_links page of None \<Rightarrow> parent_links page | Some ls \<Rightarrow> ls);
                links = (if links = [] then sibling_links page else links)
            in if links = [] then Inr []
               else Inr (link_loop cat limit ({}, []) links))"

text \<open>
  The links the extractor reads on a page (those of the section around the heading, of
  the heading's parent when there is no section, of the next sibling when these are
  none), and the item URLs they offer, in page order: the canonical URL of every link
  that has one, each URL at its first occurrence only.
\<close>

definition page_links :: "listing_page \<Rightarrow> link list" where
  "page_links page =
     (if h2_count page = 0 then []
      else let links = (case section_links page of None \<Rightarrow> parent_links page | Some ls \<Rightarrow> ls)
           in if links = [] then sibling_links page else links)"

definition link_url :: "link \<Rightarrow> string option" where
  "link_url a = canonical_url (case link_href a of None \<Rightarrow> [] | Some h \<Rightarrow> h)"

fun first_occurrences :: "'a set \<Rightarrow> 'a list \<Rightarrow> 'a list" where
  "first_occurrences S [] = []"
| "first_occurrences S (x # xs) =
     (if x \<in> S then first_occurrences S xs else x # first_occurrences (insert x S) xs)"

definition offered_urls :: "link list \<Rightarrow> string list" where
  "offered_urls links = first_occurrences {} (List.map_filter link_url links)"

definition ex_link_x :: link where
  "ex_link_x = \<lparr>link_href = Some ''https://apps.shopify.com/app-x/?ref=abc'', link_text = ''App X''\<rparr>"

definition ex_link_y :: link where
  "ex_link_y = \<lparr>link_href = Some ''https://apps.shopify.com/app-y'', link_text = []\<rparr>"

definition ex_listing_page :: listing_page where
  "ex_listing_page =
     \<lparr>goto_raises = None, h2_count = 1, section_links = Some [ex_link_x, ex_link_y],
      parent_links = [], sibling_links = []\<rparr>"

section \<open>Regular expressions as the scraper uses them\<close>

text \<open>
  The patterns of the program use literals, \<open>\s\<close>, \<open>\d\<close>, a character range,
  sequence, alternation, \<open>?\<close>, and \<open>*\<close> and \<open>+\<close> on single characters. \<open>matches ic r s\<close>
  lists, for a match of \<open>r\<close> starting at the head of \<open>s\<close>, the text left after each
  possible match, in the order in which Python's backtracking matcher tries them: a
  greedy quantifier takes the longest first, an alternation its left branch first. The
  head of the list is the match \<open>re\<close> reports at that position. \<open>ic\<close> is \<open>re.IGNORECASE\<close>:
  a literal then matches the characters with its lower-case form, a range those whose
  lower-case form, or the upper-case form of it, lies in the range.
\<close>

datatype atom = Lit char | Space | Digit | Range char char

datatype re =
    Eps
  | Atom atom
  | Seq re re
  | Alt re re
  | Opt re
  | Star atom

definition in_range :: "char \<Rightarrow> char \<Rightarrow> char \<Rightarrow> bool" where
  "in_range lo hi d = ((of_char lo :: nat) \<le> of_char d \<and> (of_char d :: nat) \<le> of_char hi)"

fun atom_ok :: "bool \<Rightarrow> atom \<Rightarrow> char \<Rightarrow> bool" where
  "atom_ok ic (Lit c) d = (if ic then to_lower c = to_lower d else c = d)"
| "atom_ok ic Space d = py_isspace d"
| "atom_ok ic Digit d = is_digit d"
| "atom_ok ic (Range lo hi) d =
     (if ic then in_range lo hi (to_lower d) \<or> in_range lo hi (to_upper (to_lower d))
      else in_range lo hi d)"

fun star_matches :: "bool \<Rightarrow> atom \<Rightarrow> string \<Rightarrow> string list" where
  "star_matches ic a [] = [[]]"
| "star_matches ic a (c # cs) =
     (if atom_ok ic a c then star_matches ic a cs @ [c # cs] else [c # cs])"

fun matches :: "bool \<Rightarrow> re \<Rightarrow> string \<Rightarrow> string list" where
  "matches ic Eps s = [s]"
| "matches ic (Atom a) s = (case s of [] \<Rightarrow> [] | c # cs \<Rightarrow> if atom_ok ic a c then [cs] else [])"
| "matches ic (Seq r1 r2) s = concat (map (matches ic r2) (matches ic r1 s))"
| "matches ic (Alt r1 r2) s = matches ic r1 s @ matches ic r2 s"
| "matches ic (Opt r) s = matches ic r s @ [s]"
| "matches ic (Star a) s = star_matches ic a s"

text \<open>
  \<open>re.search\<close>: the match at the leftmost position that has one; the value is the
  matched text, \<open>m.group(0)\<close>.
\<close>

fun re_search :: "bool \<Rightarrow> re \<Rightarrow> string \<Rightarrow> string option" where
  "re_search ic r [] = (case matches ic r [] of [] \<Rightarrow> None | rest # _ \<Rightarrow> Some [])"
| "re_search ic r (c # cs) =
     (case matches ic r (c # cs) of
        [] \<Rightarrow> re_search ic r cs
      | rest # _ \<Rightarrow> Some (take (length (c # cs) - length rest) (c # cs)))"

definition seqs :: "re list \<Rightarrow> re" where
  "seqs rs = foldr Seq rs Eps"

definition lits :: "string \<Rightarrow> re" where
  "lits s = seqs (map (\<lambda>c. Atom (Lit c)) s)"

definition one_or_more :: "atom \<Rightarrow> re" where
  "one_or_more a = Seq (Atom a) (Star a)"

text \<open>
  \<open>(From\s*)?\$\s*\d+(?:\.\d+)?\s*(?:/|\sper\s)\s*(month|mo|year|yr)\<close> and
  \<open>(From\s*)?\$\s*\d+(?:\.\d+)?\<close>, both searched with \<open>re.IGNORECASE\<close>.
\<close>

definition price_amount :: "re list" where
  "price_amount =
     [Opt (Seq (lits ''From'') (Star Space)), Atom (Lit (CHR ''$'')), Star Space, one_or_more Digit,
      Opt (Seq (Atom (Lit (CHR ''.''))) (one_or_more Digit))]"

definition price_with_period :: re where
  "price_with_period =
     seqs (price_amount @
       [Star Space,
        Alt (Atom (Lit (CHR ''/''))) (seqs [Atom Space, lits ''per'', Atom Space]),
        Star Space,
        Alt (lits ''month'') (Alt (lits ''mo'') (Alt (lits ''year'') (lits ''yr'')))])"

definition price_bare :: re where
  "price_bare = seqs price_amount"

text \<open>
  Three checks on the syntax of a pattern: whether it can match the empty text, and
  whether every text it matches is free of white space at its end and at its start.
  They serve to show that \<open>strip()\<close> leaves a price match as it is.
\<close>

fun nullable :: "re \<Rightarrow> bool" where
  "nullable Eps = True"
| "nullable (Atom a) = False"
| "nullable (Seq r1 r2) = (nullable r1 \<and> nullable r2)"
| "nullable (Alt r1 r2) = (nullable r1 \<or> nullable r2)"
| "nullable (Opt r) = True"
| "nullable (Star a) = True"

fun atom_nonspace :: "atom \<Rightarrow> bool" where
  "atom_nonspace (Lit c) = (\<not> py_isspace c \<and> \<not> py_isspace (to_lower c))"
| "atom_nonspace Space = False"
| "atom_nonspace Digit = True"
| "atom_nonspace (Range lo hi) = ((32::nat) < of_char lo \<and> (of_char hi :: nat) < 133)"

fun ends_nonspace :: "re \<Rightarrow> bool" where
  "ends_nonspace Eps = True"
| "ends_nonspace (Atom a) = atom_nonspace a"
| "ends_nonspace (Seq r1 r2) = (ends_nonspace r2 \<and> (nullable r2 \<longrightarrow> ends_nonspace r1))"
| "ends_nonspace (Alt r1 r2) = (ends_nonspace r1 \<and> ends_nonspace r2)"
| "ends_nonspace (Opt r) = ends_nonspace r"
| "ends_nonspace (Star a) = atom_nonspace a"

fun starts_nonspace :: "re \<Rightarrow> bool" where
  "starts_nonspace Eps = True"
| "starts_nonspace (Atom a) = atom_nonspace a"
| "starts_nonspace (Seq r1 r2) = (starts_nonspace r1 \<and> (nullable r1 \<longrightarrow> starts_nonspace r2))"
| "starts_nonspace (Alt r1 r2) = (starts_nonspace r1 \<and> starts_nonspace r2)"
| "starts_nonspace (Opt r) = starts_nonspace r"
| "starts_nonspace (Star a) = atom_nonspace a"

section \<open>Detail enrichment (shopify/product_detail.py)\<close>

text \<open>
  What the enrichment reads from an item's detail page. Each field is the outcome of
  one call on the page driver: a value, or the exception it raised. The developer and
  the rating extractors are taken by their outcome as a whole (a pair of field values);
  the price and the description are computed here from what the page shows. The rating
  extractor catches the exceptions of its own page reads, so an exception that leaves
  it is one raised between them, a \<open>MemoryError\<close> for instance.
\<close>

record detail_page =
  goto_error :: "error option"
  developer_info :: "error + pyval \<times> pyval"
  rating_and_reviews :: "error + pyval \<times> pyval"
  free_to_install_count :: "error + nat"
  free_plan_count :: "error + nat"
  main_text :: "error + string"
  meta_count :: "error + nat"
  meta_content :: "error + string option"
  main_p_text :: "error + string"
  utcnow_iso :: string

text \<open>
  \<open>_extract_price\<close>. The two \<open>count()\<close> calls are outside the \<open>try\<close>, the read of the
  main text is inside it.
\<close>

definition extract_price :: "detail_page \<Rightarrow> error + string" where
  "extract_price page =
     (case free_to_install_count page of
        Inl e \<Rightarrow> Inl e
      | Inr n1 \<Rightarrow>
          if n1 \<noteq> 0 then Inr ''Free to install''
          else case free_plan_count page of
            Inl e \<Rightarrow> Inl e
          | Inr n2 \<Rightarrow>
              if n2 \<noteq> 0 then Inr ''Free plan''
              else case main_text page of
                Inl e \<Rightarrow> Inr []
              | Inr txt \<Rightarrow>
                  (case re_search True price_with_period txt of
                     Some m \<Rightarrow> Inr (py_strip m)
                   | None \<Rightarrow>
                       (case re_search True price_bare txt of
                          Some m2 \<Rightarrow> Inr (py_strip m2)
                        | None \<Rightarrow> Inr [])))"

text \<open>\<open>_safe_text(loc, default)\<close>: the stripped inner text, the default on an exception.\<close>

definition safe_text :: "error + string \<Rightarrow> string \<Rightarrow> string" where
  "safe_text inner dflt = (case inner of Inl e \<Rightarrow> dflt | Inr t \<Rightarrow> py_strip t)"

definition extract_description :: "detail_page \<Rightarrow> error + string" where
  "extract_description page =
     (case meta_count page of
        Inl e \<Rightarrow> Inl e
      | Inr n \<Rightarrow>
          if n \<noteq> 0 then
            (case meta_content page of
               Inl e \<Rightarrow> Inl e
             | Inr c \<Rightarrow>
                 let c = py_strip (case c of None \<Rightarrow> [] | Some t \<Rightarrow> t)
                 in if c \<noteq> [] then Inr c else Inr (safe_text (main_p_text page) []))
          else Inr (safe_text (main_p_text page) []))"

text \<open>
  \<open>enrich_product_row\<close> mutates the row it is given and returns it. When a step outside
  the two \<open>try\<close> blocks raises, the exception leaves the function; the row as mutated so
  far is still what the caller holds, so the model returns it with the exception.
\<close>

definition set_developer :: "detail_page \<Rightarrow> pydict \<Rightarrow> pydict" where
  "set_developer page row =
     (case developer_info page of
        Inr (developer_name, developer_website) \<Rightarrow>
          dict_set (dict_set row ''developer_name'' developer_name)
            ''developer_website'' developer_website
      | Inl e \<Rightarrow>
          dict_set (dict_set row ''developer_name'' PNone) ''developer_website'' PNone)"

definition set_reviews :: "detail_page \<Rightarrow> pydict \<Rightarrow> pydict" where
  "set_reviews page row =
     (case rating_and_reviews page of
        Inr (rating, reviews_count) \<Rightarrow>
          dict_set (dict_set (dict_set (dict_set row
            ''rating'' rating)
            ''reviews_count'' reviews_count)
            ''reviews_source'' (PStr ''shopify_app_store''))
            ''reviews_scraped_at'' (PStr (utcnow_iso page @ ''Z''))
      | Inl e \<Rightarrow>
          dict_set (dict_set (dict_set (dict_set row
            ''rating'' PNone)
            ''reviews_count'' PNone)
            ''reviews_source'' (PStr ''shopify_app_store''))
            ''reviews_scrape_error'' (PStr (repr_error e)))"

definition enrich_product_row :: "detail_page \<Rightarrow> pydict \<Rightarrow> error \<times> pydict + pydict" where
  "enrich_product_row page row =
     (case map_of row ''products_url'' of
        None \<Rightarrow> Inl (KeyError ''products_url'', row)
      | Some url \<Rightarrow>
          (case goto_error page of
             Some e \<Rightarrow> Inl (e, row)
           | None \<Rightarrow>
               let row1 = set_developer page row;
                   row2 = set_reviews page row1
               in case extract_description page of
                    Inl e \<Rightarrow> Inl (e, row2)
                  | Inr d \<Rightarrow>
                      let row3 = dict_set row2 ''Product_description'' (PStr d)
                      in case extract_price page of
                           Inl e \<Rightarrow> Inl (e, row3)
                         | Inr p \<Rightarrow> Inr (dict_set row3 ''Price'' (PStr p))))"

text \<open>
  \<open>scrape_shopify_category\<close>: the listing, then the enrichment of every row on the
  detail page found for it (\<open>details i\<close> is the page the \<open>i\<close>-th row leads to). A row
  whose enrichment raised is kept, as mutated, with \<open>enrich_error\<close>.
\<close>

fun enrich_rows :: "(nat \<Rightarrow> detail_page) \<Rightarrow> nat \<Rightarrow> pydict list \<Rightarrow> pydict list" where
  "enrich_rows details i [] = []"
| "enrich_rows details i (row # rows) =
     (case enrich_product_row (details i) row of
        Inr enriched \<Rightarrow> enriched
      | Inl (e, row1) \<Rightarrow> dict_set row1 ''enrich_error'' (PStr (str_error e)))
     # enrich_rows details (Suc i) rows"

definition scrape_shopify_category ::
  "listing_page \<Rightarrow> (nat \<Rightarrow> detail_page) \<Rightarrow> category \<Rightarrow> int \<Rightarrow> error + pydict list" where
  "scrape_shopify_category page details cat products_per_category =
     (case extract_products_from_category page cat products_per_category of
        Inl e \<Rightarrow> Inl e
      | Inr rows \<Rightarrow> Inr (enrich_rows details 0 rows))"

definition ex_detail_page :: detail_page where
  "ex_detail_page =
     \<lparr>goto_error = None,
      developer_info = Inr (PStr ''Acme Apps'', PStr ''https://acme.example''),
      rating_and_reviews = Inl (Exception ''MemoryError'' []),
      free_to_install_count = Inr 0,
      free_plan_count = Inr 0,
      main_text = Inr ''Pricing: a one-time $5 setup. From $9.99/month after the trial.'',
      meta_count = Inr 1,
      meta_content = Inr (Some '' Sell more with App X. ''),
      main_p_text = Inr ''First paragraph'',
      utcnow_iso = ''2026-01-01T00:00:00''\<rparr>"

definition ex_row :: pydict where
  "ex_row = make_row ex_marketing ''App X'' ''https://apps.shopify.com/app-x''"

definition ex_row_enriched :: pydict where
  "ex_row_enriched =
     [(''Apps category'', PStr ''Marketing''),
      (''apps_url'', PStr ''https://apps.shopify.com/categories/marketing''),
      (''description'', PStr []),
      (''Recommended products'', PStr ''App X''),
      (''products_url'', PStr ''https://apps.shopify.com/app-x''),
      (''Product_description'', PStr ''Sell more with App X.''),
      (''Price'', PStr ''From $9.99/month''),
      (''rating'', PNone),
      (''reviews_count'', PNone),
      (''developer_name'', PStr ''Acme Apps''),
      (''developer_website'', PStr ''https://acme.example''),
      (''reviews_source'', PStr ''shopify_app_store''),
      (''reviews_scrape_error'', PStr ''MemoryError()'')]"

section \<open>The run on the pages of the store\<close>

text \<open>
  What the browser shows during a run, category by category: the listing page of the
  category and the detail pages its rows lead to. \<open>scraped\<close> pairs every category with
  what \<open>scrape_shopify_category\<close> returns for it; these are the records the loop of
  \<open>run_shopify_actor\<close> is fed.
\<close>

record site =
  site_category :: category
  site_listing :: listing_page
  site_details :: "nat \<Rightarrow> detail_page"

definition scraped :: "int \<Rightarrow> site list \<Rightarrow> (category \<times> (error + pydict list)) list" where
  "scraped products_per_category sites =
     map (\<lambda>s. (site_category s,
               scrape_shopify_category (site_listing s) (site_details s) (site_category s)
                 products_per_category))
         sites"

text \<open>
  Two categories whose listings share one item: the first lists App X and App Y, the
  second App X again and App Z.
\<close>

definition ex_listing_sales :: listing_page where
  "ex_listing_sales =
     \<lparr>goto_raises = None, h2_count = 1, section_links = None,
      parent_links =
        [\<lparr>link_href = Some ''https://apps.shopify.com/app-x'', link_text = ''App X''\<rparr>,
         \<lparr>link_href = Some ''https://apps.shopify.com/app-z/reviews'', link_text = ''App Z''\<rparr>],
      sibling_links = []\<rparr>"

definition ex_free_page :: detail_page where
  "ex_free_page = ex_detail_page\<lparr>free_to_install_count := Inr 1\<rparr>"

definition ex_sites :: "site list" where
  "ex_sites =
     [\<lparr>site_category = ex_marketing, site_listing = ex_listing_page,
       site_details = (\<lambda>i. ex_free_page)\<rparr>,
      \<lparr>site_category = ex_sales, site_listing = ex_listing_sales,
       site_details = (\<lambda>i. ex_free_page)\<rparr>]"

definition ex_sites_final :: run_state where
  "ex_sites_final = projr (category_loop ex_cfg initial_state (scraped 30 ex_sites))"

section \<open>The review harvester (shopify/reviews_extractor.py)\<close>

text \<open>
  What the harvester reads from an item's page. A JSON-LD script is the outcome of
  reading its text and parsing it: an exception of the read, \<open>None\<close> for an empty or
  unparsable text, or the parsed value. A card is what its locators give. The page is
  seen anew in every iteration of the DOM pass: \<open>dom_views pidx\<close> is what it shows in
  iteration \<open>pidx\<close>. \<open>clock k\<close> is the reading of the \<open>k\<close>-th call of \<open>time.time()\<close>,
  in a fixed integer unit.
\<close>

record review_card =
  card_p :: "error + string"
  card_heading :: "error + string"
  card_time :: "error + string"
  card_reviewer :: "error + string"
  card_aria :: "error + string option"

record dom_view =
  view_cards :: "error + review_card list"
  reviews_keyword_count :: "error + nat"
  load_more_count :: "error + nat"
  load_more_click :: "error option"
  next_count :: "error + nat"
  next_click :: "error option"

record app_page =
  app_goto_error :: "error option"
  app_free_to_install_count :: "error + nat"
  app_free_plan_count :: "error + nat"
  app_main_text :: "error + string"
  h1_text :: "error + string"
  jsonld_scripts :: "error + (error + pyval option) list"
  reveal_error :: "error option"
  dom_views :: "nat \<Rightarrow> dom_view"
  clock :: "nat \<Rightarrow> int"

text \<open>\<open>extract_shopify_price\<close>: the synchronous twin of \<open>_extract_price\<close>.\<close>

definition extract_shopify_price :: "app_page \<Rightarrow> error + string" where
  "extract_shopify_price page =
     (case app_free_to_install_count page of
        Inl e \<Rightarrow> Inl e
      | Inr n1 \<Rightarrow>
          if n1 \<noteq> 0 then Inr ''Free to install''
          else case app_free_plan_count page of
            Inl e \<Rightarrow> Inl e
          | Inr n2 \<Rightarrow>
              if n2 \<noteq> 0 then Inr ''Free plan''
              else case app_main_text page of
                Inl e \<Rightarrow> Inr []
              | Inr txt \<Rightarrow>
                  (case re_search True price_with_period txt of
                     Some m \<Rightarrow> Inr (py_strip m)
                   | None \<Rightarrow>
                       (case re_search True price_bare txt of
                          Some m2 \<Rightarrow> Inr (py_strip m2)
                        | None \<Rightarrow> Inr [])))"

text \<open>\<open>_extract_json_ld_reviews\<close>, on the parsed scripts.\<close>

definition as_list :: "pyval \<Rightarrow> pyval list" where
  "as_list v = (case v of PList xs \<Rightarrow> xs | _ \<Rightarrow> [v])"

definition get_or_empty :: "pydict \<Rightarrow> string \<Rightarrow> pyval" where
  "get_or_empty d k = py_or (dict_get_default d k (PStr [])) (PStr [])"

definition jsonld_review_of :: "pyval \<Rightarrow> pydict option" where
  "jsonld_review_of r =
     (case r of
        PDict d \<Rightarrow>
          let author = (case dict_get d ''author'' of
                          PDict a \<Rightarrow> get_or_empty a ''name''
                        | PStr s \<Rightarrow> get_or_empty d ''author''
                        | _ \<Rightarrow> PStr []);
              rating = (case dict_get d ''reviewRating'' of
                          PDict rr \<Rightarrow> PStr (py_str (get_or_empty rr ''ratingValue''))
                        | _ \<Rightarrow> PStr [])
          in Some [(''review_title'', get_or_empty d ''name''),
                   (''review_text'', get_or_empty d ''reviewBody''),
                   (''review_date'', get_or_empty d ''datePublished''),
                   (''reviewer'', author),
                   (''rating'', rating),
                   (''source'', PStr ''jsonld'')]
      | _ \<Rightarrow> None)"

definition reviews_of_item :: "pyval \<Rightarrow> pydict list" where
  "reviews_of_item it =
     (case it of
        PDict d \<Rightarrow>
          let rv = dict_get d ''review''
          in if \<not> truthy rv then [] else List.map_filter jsonld_review_of (as_list rv)
      | _ \<Rightarrow> [])"

fun scripts_reviews :: "(error + pyval option) list \<Rightarrow> error + pydict list" where
  "scripts_reviews [] = Inr []"
| "scripts_reviews (script # scripts) =
     (case script of
        Inl e \<Rightarrow> Inl e
      | Inr None \<Rightarrow> scripts_reviews scripts
      | Inr (Some data) \<Rightarrow>
          (case scripts_reviews scripts of
             Inl e \<Rightarrow> Inl e
           | Inr out \<Rightarrow> Inr (concat (map reviews_of_item (as_list data)) @ out)))"

definition extract_json_ld_reviews :: "app_page \<Rightarrow> error + pydict list" where
  "extract_json_ld_reviews page =
     (case jsonld_scripts page of
        Inl e \<Rightarrow> Inl e
      | Inr scripts \<Rightarrow> scripts_reviews (take 10 scripts))"

text \<open>
  The review record appended to \<open>reviews\<close>, and the two deduplication keys: line 126 cuts
  the body at 80 characters, line 203 at 90. The key of a JSON-LD review needs both
  fields to be strings; with anything else the concatenation or the slice raises, which
  is \<open>None\<close> here: the exception is caught by the function's \<open>except\<close> and its value is
  not used.
\<close>

definition review_record :: "pydict \<Rightarrow> pyval \<Rightarrow> pyval \<Rightarrow> pyval \<Rightarrow> pyval \<Rightarrow> pyval \<Rightarrow> pyval \<Rightarrow> pydict" where
  "review_record app title body date reviewer rating source =
     [(''platform'', PStr ''shopify''),
      (''app_name'', dict_get_default app ''app_name'' (PStr [])),
      (''app_url'', dict_get_default app ''app_url'' (PStr [])),
      (''category_url'', dict_get_default app ''category_url'' (PStr [])),
      (''review_title'', title),
      (''review_text'', body),
      (''review_date'', date),
      (''reviewer'', reviewer),
      (''rating'', rating),
      (''source'', source)]"

definition jsonld_key :: "pydict \<Rightarrow> string option" where
  "jsonld_key r =
     (case (dict_get_default r ''review_title'' (PStr []), dict_get_default r ''review_text'' (PStr [])) of
        (PStr title, PStr body) \<Rightarrow> Some (py_strip (title @ ''|'' @ take 80 body))
      | _ \<Rightarrow> None)"

definition dom_key :: "string \<Rightarrow> string \<Rightarrow> string" where
  "dom_key title body = py_strip (title @ ''|'' @ take 90 body)"

text \<open>
  A loop either goes on with its state or ends the function: \<open>return reviews\<close>, or an
  exception, which the function's \<open>except\<close> turns into \<open>return reviews\<close> as well. The
  diagnostic dump written in that case is not part of the model.
\<close>

datatype 'a flow = Return "pydict list" | Go 'a

fun jsonld_loop ::
  "pydict \<Rightarrow> int \<Rightarrow> string set \<times> pydict list \<Rightarrow> pydict list \<Rightarrow> (string set \<times> pydict list) flow" where
  "jsonld_loop app max_reviews (seen, reviews) [] = Go (seen, reviews)"
| "jsonld_loop app max_reviews (seen, reviews) (r # rs) =
     (case jsonld_key r of
        None \<Rightarrow> Return reviews
      | Some key \<Rightarrow>
          if key = [] \<or> key \<in> seen then jsonld_loop app max_reviews (seen, reviews) rs
          else
            let reviews1 = reviews @
                  [review_record app
                     (dict_get_default r ''review_title'' (PStr []))
                     (dict_get_default r ''review_text'' (PStr []))
                     (dict_get_default r ''review_date'' (PStr []))
                     (dict_get_default r ''reviewer'' (PStr []))
                     (dict_get_default r ''rating'' (PStr []))
                     (dict_get_default r ''source'' (PStr ''jsonld''))]
            in if int (length reviews1) \<ge> max_reviews then Return reviews1
               else jsonld_loop app max_reviews (insert key seen, reviews1) rs)"

text \<open>The rating of a card: \<open>re.search(r"([0-5](?:\.\d)?)", aria)\<close>.\<close>

definition stars_pattern :: re where
  "stars_pattern = Seq (Atom (Range (CHR ''0'') (CHR ''5''))) (Opt (Seq (Atom (Lit (CHR ''.''))) (Atom Digit)))"

definition card_rating :: "review_card \<Rightarrow> string" where
  "card_rating c =
     (let aria = (case card_aria c of Inl e \<Rightarrow> [] | Inr None \<Rightarrow> [] | Inr (Some a) \<Rightarrow> a)
      in case re_search False stars_pattern aria of None \<Rightarrow> [] | Some m \<Rightarrow> m)"

text \<open>
  The loop \<open>for i in range(scan_limit)\<close> over the cards of one view. The state is the
  number of clock readings taken so far, \<open>seen\<close> and \<open>reviews\<close>.
\<close>

fun card_loop ::
  "app_page \<Rightarrow> pydict \<Rightarrow> int \<Rightarrow> int \<Rightarrow> nat \<times> string set \<times> pydict list \<Rightarrow> review_card list
     \<Rightarrow> (nat \<times> string set \<times> pydict list) flow" where
  "card_loop page app max_reviews time_budget_sec (ticks, seen, reviews) [] = Go (ticks, seen, reviews)"
| "card_loop page app max_reviews time_budget_sec (ticks, seen, reviews) (c # cards) =
     (if clock page ticks - clock page 0 > time_budget_sec then Go (Suc ticks, seen, reviews)
      else
        let body = safe_text (card_p c) []
        in if length body < 40
           then card_loop page app max_reviews time_budget_sec (Suc ticks, seen, reviews) cards
           else
             let title = safe_text (card_heading c) [];
                 date = safe_text (card_time c) [];
                 reviewer = safe_text (card_reviewer c) [];
                 rating = card_rating c;
                 key = dom_key title body
             in if key = [] \<or> key \<in> seen
                then card_loop page app max_reviews time_budget_sec (Suc ticks, seen, reviews) cards
                else
                  let reviews1 = reviews @
                        [review_record app (PStr title) (PStr body) (PStr date) (PStr reviewer)
                           (PStr rating) (PStr ''dom'')]
                  in if int (length reviews1) \<ge> max_reviews then Return reviews1
                     else card_loop page app max_reviews time_budget_sec
                            (Suc ticks, insert key seen, reviews1) cards)"

text \<open>
  The loop \<open>for pidx in range(max_pages)\<close>; \<open>remaining\<close> counts the iterations left.
\<close>

fun page_loop ::
  "app_page \<Rightarrow> pydict \<Rightarrow> int \<Rightarrow> int \<Rightarrow> nat \<Rightarrow> nat \<Rightarrow> nat \<times> string set \<times> pydict list \<Rightarrow> pydict list" where
  "page_loop page app max_reviews time_budget_sec pidx 0 (ticks, seen, reviews) = reviews"
| "page_loop page app max_reviews time_budget_sec pidx (Suc remaining) (ticks, seen, reviews) =
     (if clock page ticks - clock page 0 > time_budget_sec then reviews
      else
        let view = dom_views page pidx
        in case view_cards view of
             Inl e \<Rightarrow> reviews
           | Inr all_cards \<Rightarrow>
               let cards = take 120 all_cards
               in if cards = [] \<and> pidx = 0 \<and> reviews = [] then reviews
                  else
                    (case card_loop page app max_reviews time_budget_sec (Suc ticks, seen, reviews) cards of
                       Return rs \<Rightarrow> rs
                     | Go (ticks1, seen1, reviews1) \<Rightarrow>
                         (case reviews_keyword_count view of
                            Inl e \<Rightarrow> reviews1
                          | Inr kw \<Rightarrow>
                              if kw = 0 then reviews1
                              else
                                (case load_more_count view of
                                   Inl e \<Rightarrow> reviews1
                                 | Inr lm \<Rightarrow>
                                     if lm \<noteq> 0 \<and> load_more_click view = None
                                     then page_loop page app max_reviews time_budget_sec (Suc pidx)
                                            remaining (ticks1, seen1, reviews1)
                                     else
                                       (case next_count view of
                                          Inl e \<Rightarrow> reviews1
                                        | Inr nx \<Rightarrow>
                                            if nx = 0 then reviews1
                                            else if next_click view \<noteq> None then reviews1
                                            else page_loop page app max_reviews time_budget_sec
                                                   (Suc pidx) remaining (ticks1, seen1, reviews1))))))"

text \<open>The two back-fills of the shared record, lines 116 to 121.\<close>

definition fill_price :: "app_page \<Rightarrow> pydict \<Rightarrow> error + pydict" where
  "fill_price page app =
     (if \<not> truthy (dict_get app ''price'')
      then (case extract_shopify_price page of
              Inl e \<Rightarrow> Inl e
            | Inr p \<Rightarrow> Inr (dict_set app ''price'' (PStr p)))
      else Inr app)"

definition unknown_app_name :: "app_page \<Rightarrow> pyval" where
  "unknown_app_name page = PStr (safe_text (h1_text page) ''(unknown app)'')"

definition fill_name :: "app_page \<Rightarrow> pydict \<Rightarrow> error + pydict" where
  "fill_name page app =
     (let name = dict_get app ''app_name''
      in if \<not> truthy name then Inr (dict_set app ''app_name'' (unknown_app_name page))
         else case val_strip name of
                Inl e \<Rightarrow> Inl e
              | Inr stripped \<Rightarrow>
                  if stripped = [] then Inr (dict_set app ''app_name'' (unknown_app_name page))
                  else Inr app)"

text \<open>
  \<open>extract_shopify_reviews\<close>: the record as the function leaves it, and the reviews it
  returns.
\<close>

definition extract_shopify_reviews ::
  "app_page \<Rightarrow> pydict \<Rightarrow> int \<Rightarrow> int \<Rightarrow> int \<Rightarrow> pydict \<times> pydict list" where
  "extract_shopify_reviews page app max_reviews max_pages time_budget_sec =
     (case map_of app ''app_url'' of
        None \<Rightarrow> (app, [])
      | Some url \<Rightarrow>
          (case app_goto_error page of
             Some e \<Rightarrow> (app, [])
           | None \<Rightarrow>
               (case fill_price page app of
                  Inl e \<Rightarrow> (app, [])
                | Inr app1 \<Rightarrow>
                    (case fill_name page app1 of
                       Inl e \<Rightarrow> (app1, [])
                     | Inr app2 \<Rightarrow>
                         (case extract_json_ld_reviews page of
                            Inl e \<Rightarrow> (app2, [])
                          | Inr jsonld_reviews \<Rightarrow>
                              (case jsonld_loop app2 max_reviews ({}, []) jsonld_reviews of
                                 Return rs \<Rightarrow> (app2, rs)
                               | Go (seen, reviews) \<Rightarrow>
                                   (case reveal_error page of
                                      Some e \<Rightarrow> (app2, reviews)
                                    | None \<Rightarrow>
                                        (app2, page_loop page app2 max_reviews time_budget_sec 0
                                                 (nat max_pages) (1, seen, reviews)))))))))"

text \<open>
  A page used to exercise the harvester: one JSON-LD review and one DOM card that show
  the same review, whose body has 95 characters; a second page shows a review whose
  body has 58 characters in the same two ways.
\<close>

definition ex_body_long :: string where
  "ex_body_long =
     ''This app doubled our conversion rate in two weeks and the support team answered every question.''"

definition ex_body_short :: string where
  "ex_body_short = ''Setup took five minutes and it has worked well ever since.''"

definition ex_jsonld :: "string \<Rightarrow> pyval" where
  "ex_jsonld body =
     PDict [(''@type'', PStr ''SoftwareApplication''),
            (''review'', PList [PDict [(''name'', PStr ''Great app''),
                                       (''reviewBody'', PStr body),
                                       (''author'', PDict [(''name'', PStr ''Ada'')]),
                                       (''reviewRating'', PDict [(''ratingValue'', PInt 5)])]])]"

definition ex_card :: "string \<Rightarrow> review_card" where
  "ex_card body =
     \<lparr>card_p = Inr body, card_heading = Inr ''Great app'', card_time = Inr ''January 1, 2026'',
      card_reviewer = Inr ''Ada'', card_aria = Inr (Some ''5 out of 5 stars'')\<rparr>"

definition ex_view :: "string \<Rightarrow> dom_view" where
  "ex_view body =
     \<lparr>view_cards = Inr [ex_card body], reviews_keyword_count = Inr 1, load_more_count = Inr 0,
      load_more_click = None, next_count = Inr 0, next_click = None\<rparr>"

definition ex_app_page :: "string \<Rightarrow> app_page" where
  "ex_app_page body =
     \<lparr>app_goto_error = None, app_free_to_install_count = Inr 1, app_free_plan_count = Inr 0,
      app_main_text = Inr [], h1_text = Inr ''App X'',
      jsonld_scripts = Inr [Inr (Some (ex_jsonld body))], reveal_error = None,
      dom_views = (\<lambda>pidx. ex_view body), clock = (\<lambda>k. 0)\<rparr>"

definition ex_app :: pydict where
  "ex_app = [(''platform'', PStr ''shopify''),
             (''category_url'', PStr ''https://apps.shopify.com/categories/marketing''),
             (''category'', PStr ''Marketing''),
             (''app_name'', PStr ''App X''),
             (''app_url'', PStr ''https://apps.shopify.com/app-x''),
             (''price'', PStr [])]"

definition ex_app_blank_name :: pydict where
  "ex_app_blank_name =
     [(''app_name'', PStr '' ''), (''app_url'', PStr ''https://apps.shopify.com/app-x''),
      (''price'', PStr ''$5/month'')]"

section \<open>Properties of the aggregation loop\<close>

lemma first_seen_mod_empty:
  "S - {[]} = T - {[]} \<Longrightarrow> first_seen S rs = first_seen T rs"
proof (induction rs arbitrary: S T)
  case Nil
  show ?case by simp
next
  case (Cons r rs)
  from Cons.prems have mem: "url_of r \<noteq> [] \<Longrightarrow> url_of r \<in> S \<longleftrightarrow> url_of r \<in> T"
    by blast
  from Cons.prems have "insert (url_of r) S - {[]} = insert (url_of r) T - {[]}"
    by blast
  from Cons.IH[OF this] Cons.IH[OF Cons.prems] mem show ?case
    by auto
qed

lemma first_seen_insert_empty: "first_seen (insert [] S) rs = first_seen S rs"
  by (rule first_seen_mod_empty) simp

lemma app_loop_first_seen:
  "app_loop (st, pc) rs = Inr (st', pc') \<Longrightarrow>
     all_results_for_files st' = all_results_for_files st @ first_seen (seen_urls st) rs \<and>
     dataset st' = dataset st @ first_seen (seen_urls st) rs \<and>
     pc' = pc @ first_seen (seen_urls st) rs \<and>
     pushed st' = pushed st + length (first_seen (seen_urls st) rs) \<and>
     skipped_dupes st' + length (first_seen (seen_urls st) rs) = skipped_dupes st + length rs \<and>
     seen_urls st' = seen_urls st \<union> (url_of ` set rs - {[]}) \<and>
     category_stats st' = category_stats st \<and> generated_files st' = generated_files st \<and>
     exports st' = exports st"
proof (induction rs arbitrary: st pc)
  case Nil
  then show ?case by simp
next
  case (Cons r rs)
  from Cons.prems obtain u where u: "record_url r = Inr u"
    by (cases "record_url r") auto
  then have uo: "url_of r = u"
    by (simp add: url_of_def)
  show ?case
  proof (cases "u \<noteq> [] \<and> u \<in> seen_urls st")
    case True
    with Cons.prems u
    have "app_loop (st\<lparr>skipped_dupes := skipped_dupes st + 1\<rparr>, pc) rs = Inr (st', pc')"
      by simp
    from Cons.IH[OF this] True uo show ?thesis
      by auto
  next
    case False
    show ?thesis
    proof (cases "u = []")
      case True
      with Cons.prems u
      have "app_loop (st\<lparr>dataset := dataset st @ [r], pushed := pushed st + 1,
          all_results_for_files := all_results_for_files st @ [r]\<rparr>, pc @ [r]) rs = Inr (st', pc')"
        by (simp add: Let_def)
      from Cons.IH[OF this] True uo show ?thesis
        by (auto simp: first_seen_insert_empty)
    next
      case ne: False
      with False have ns: "u \<notin> seen_urls st"
        by simp
      with Cons.prems u ne
      have "app_loop (st\<lparr>seen_urls := insert u (seen_urls st),
          dataset := dataset st @ [r], pushed := pushed st + 1,
          all_results_for_files := all_results_for_files st @ [r]\<rparr>, pc @ [r]) rs = Inr (st', pc')"
        by (simp add: Let_def)
      from Cons.IH[OF this] ne ns uo show ?thesis
        by auto
    qed
  qed
qed

lemma first_seen_append:
  "first_seen S (xs @ ys) = first_seen S xs @ first_seen (S \<union> url_of ` set xs) ys"
proof (induction xs arbitrary: S)
  case Nil
  show ?case by simp
next
  case (Cons a xs)
  show ?case
  proof (cases "url_of a \<noteq> [] \<and> url_of a \<in> S")
    case True
    then have "S \<union> url_of ` set (a # xs) = S \<union> url_of ` set xs"
      by auto
    with True Cons.IH[of S] show ?thesis
      by simp
  next
    case False
    have "insert (url_of a) S \<union> url_of ` set xs = S \<union> url_of ` set (a # xs)"
      by auto
    with False Cons.IH[of "insert (url_of a) S"] show ?thesis
      by auto
  qed
qed

lemma first_seen_subseq: "subseq (first_seen S rs) rs"
  by (induction rs arbitrary: S) auto

lemma first_seen_empty_urls:
  "filter (\<lambda>r. url_of r = []) (first_seen S rs) = filter (\<lambda>r. url_of r = []) rs"
  by (induction rs arbitrary: S) auto

lemma first_seen_urls_fresh:
  "r \<in> set (first_seen S rs) \<Longrightarrow> url_of r \<noteq> [] \<Longrightarrow> url_of r \<notin> S"
  by (induction rs arbitrary: S) (auto split: if_splits)

lemma first_seen_distinct:
  "distinct (filter (\<lambda>u. u \<noteq> []) (map url_of (first_seen S rs)))"
proof (induction rs arbitrary: S)
  case Nil
  show ?case by simp
next
  case (Cons r rs)
  have "\<And>x. x \<in> set (first_seen (insert (url_of r) S) rs) \<Longrightarrow> url_of x \<noteq> []
          \<Longrightarrow> url_of x \<noteq> url_of r"
    using first_seen_urls_fresh[of _ "insert (url_of r) S" rs] by blast
  then have "url_of r \<noteq> [] \<Longrightarrow>
      url_of r \<notin> set (filter (\<lambda>u. u \<noteq> []) (map url_of (first_seen (insert (url_of r) S) rs)))"
    by (auto simp del: first_seen.simps) metis
  then show ?case
    using Cons.IH by simp
qed

lemma first_seen_find:
  "u \<noteq> [] \<Longrightarrow> u \<notin> S \<Longrightarrow>
     find (\<lambda>r. url_of r = u) (first_seen S rs) = find (\<lambda>r. url_of r = u) rs"
  by (induction rs arbitrary: S) auto

lemma first_seen_length:
  "finite S \<Longrightarrow>
     length (first_seen S rs) =
       length (filter (\<lambda>r. url_of r = []) rs) + card (url_of ` set rs - {[]} - S)"
proof (induction rs arbitrary: S)
  case Nil
  show ?case by simp
next
  case (Cons r rs)
  show ?case
  proof (cases "url_of r = []")
    case True
    have "url_of ` set rs - {[]} - insert [] S = url_of ` set rs - {[]} - S"
      by auto
    with True Cons show ?thesis
      by (simp add: first_seen_insert_empty insert_Diff_if)
  next
    case False
    show ?thesis
    proof (cases "url_of r \<in> S")
      case True
      have "insert (url_of r) (url_of ` set rs) - {[]} - S = url_of ` set rs - {[]} - S"
        using True by auto
      with True False Cons show ?thesis
        by simp
    next
      case nin: False
      have eq: "insert (url_of r) (url_of ` set rs) - {[]} - S
            = insert (url_of r) (url_of ` set rs - {[]} - insert (url_of r) S)"
        using nin False by auto
      have "url_of r \<notin> url_of ` set rs - {[]} - insert (url_of r) S"
        by auto
      then have "card (insert (url_of r) (url_of ` set rs - {[]} - insert (url_of r) S))
          = Suc (card (url_of ` set rs - {[]} - insert (url_of r) S))"
        by (intro card_insert_disjoint) auto
      with eq nin False Cons.IH[of "insert (url_of r) S"] Cons.prems show ?thesis
        by simp
    qed
  qed
qed

lemma dup_positions_Cons:
  "length (dup_positions S (r # rs)) =
     (if url_of r \<noteq> [] \<and> url_of r \<in> S then 1 else 0)
       + length (dup_positions (insert (url_of r) S) rs)"
proof -
  have up: "[0..<length (r # rs)] = 0 # map Suc [0..<length rs]"
    by (simp add: upt_conv_Cons map_Suc_upt del: upt_Suc)
  show ?thesis
    unfolding dup_positions_def up
    by (simp add: filter_map o_def disj_ac del: upt_Suc)
qed

lemma first_seen_dup_positions:
  "length (dup_positions S rs) + length (first_seen S rs) = length rs"
proof (induction rs arbitrary: S)
  case Nil
  show ?case by (simp add: dup_positions_def)
next
  case (Cons r rs)
  show ?case
    using Cons.IH[of "insert (url_of r) S"]
    by (auto simp: dup_positions_Cons insert_absorb)
qed

lemma category_step_first_seen:
  assumes "category_step cfg st cat (Inr apps) = Inr st'"
  shows "all_results_for_files st' = all_results_for_files st @ first_seen (seen_urls st) apps"
    and "dataset st' = dataset st @ first_seen (seen_urls st) apps"
    and "pushed st' = pushed st + length (first_seen (seen_urls st) apps)"
    and "skipped_dupes st' + length (first_seen (seen_urls st) apps)
           = skipped_dupes st + length apps"
    and "seen_urls st' = seen_urls st \<union> (url_of ` set apps - {[]})"
  using assms app_loop_first_seen[of st "[]" apps]
  by (auto simp: category_step_def Let_def split: sum.splits if_splits prod.splits)

lemma category_step_Inl: "category_step cfg st cat (Inl e) = Inl e"
  by (simp add: category_step_def)

lemma fed_records_Cons_Inr: "fed_records ((cat, Inr apps) # cats) = apps @ fed_records cats"
  by (simp add: fed_records_def)

lemma category_loop_first_seen:
  "category_loop cfg st cats = Inr st' \<Longrightarrow>
     all_results_for_files st' = all_results_for_files st @ first_seen (seen_urls st) (fed_records cats) \<and>
     dataset st' = dataset st @ first_seen (seen_urls st) (fed_records cats) \<and>
     pushed st' = pushed st + length (first_seen (seen_urls st) (fed_records cats)) \<and>
     skipped_dupes st' + length (first_seen (seen_urls st) (fed_records cats))
       = skipped_dupes st + length (fed_records cats)"
proof (induction cats arbitrary: st)
  case Nil
  then show ?case by (simp add: fed_records_def)
next
  case (Cons p cats)
  obtain cat scraped where p: "p = (cat, scraped)"
    by (cases p)
  from Cons.prems p obtain st1 where
    s1: "category_step cfg st cat scraped = Inr st1" and
    l1: "category_loop cfg st1 cats = Inr st'"
    by (auto split: sum.splits)
  from s1 obtain apps where ap: "scraped = Inr apps"
    by (cases scraped) (auto simp: category_step_Inl)
  note cs = category_step_first_seen[OF s1[unfolded ap]]
  have "(seen_urls st \<union> (url_of ` set apps - {[]})) - {[]}
          = (seen_urls st \<union> url_of ` set apps) - {[]}"
    by blast
  then have fs: "first_seen (seen_urls st1) (fed_records cats)
          = first_seen (seen_urls st \<union> url_of ` set apps) (fed_records cats)"
    unfolding cs(5) by (rule first_seen_mod_empty)
  from Cons.IH[OF l1] cs fs show ?case
    unfolding p ap fed_records_Cons_Inr first_seen_append by simp
qed

lemma record_url_missing_or_empty:
  assumes "dict_get r ''products_url'' = PNone \<or> dict_get r ''products_url'' = PStr []"
    and "dict_get r ''product_url'' = PNone \<or> dict_get r ''product_url'' = PStr []"
  shows "record_url r = Inr []"
  using assms by (auto simp: record_url_def py_or_def py_strip_def strip_with_def)

lemma ex_cats_run: "category_loop ex_cfg initial_state ex_cats = Inr ex_final"
  by code_simp

lemma category_step_no_items: "category_step cfg st cat (Inr []) = Inr st"
  by (simp add: category_step_def)

lemma category_loop_skip_empty:
  "category_loop cfg st (before @ (cat, Inr []) # after) = category_loop cfg st (before @ after)"
proof (induction before arbitrary: st)
  case Nil
  show ?case by (simp add: category_step_no_items)
next
  case (Cons p before)
  obtain c s where p: "p = (c, s)"
    by (cases p)
  show ?case
    unfolding p by (simp add: Cons.IH split: sum.splits)
qed

lemma count_list_filter: "P r \<Longrightarrow> count_list (filter P xs) r = count_list xs r"
  by (induction xs) auto

text \<open>
  Claim C10: a record whose URL fields are missing or empty bypasses deduplication.
  When the category loop of a run ends in state \<open>st\<close>, a record \<open>r\<close> whose
  \<open>products_url\<close> and \<open>product_url\<close> are each missing, \<open>None\<close> or empty occurs in
  \<open>all_results_for_files\<close> and in the pushed dataset as often as it was fed; more
  generally the records with no URL are kept, all of them and in order; and
  \<open>skipped_dupes\<close> counts exactly the positions of the fed sequence that hold a record
  with a non-empty URL already borne by an earlier record.
\<close>

theorem C10_empty_url_bypasses_dedup:
  assumes "category_loop cfg initial_state cats = Inr st"
    and "dict_get r ''products_url'' = PNone \<or> dict_get r ''products_url'' = PStr []"
    and "dict_get r ''product_url'' = PNone \<or> dict_get r ''product_url'' = PStr []"
  shows "count_list (all_results_for_files st) r = count_list (fed_records cats) r \<and>
         count_list (dataset st) r = count_list (fed_records cats) r \<and>
         filter (\<lambda>x. url_of x = []) (all_results_for_files st)
           = filter (\<lambda>x. url_of x = []) (fed_records cats) \<and>
         filter (\<lambda>x. url_of x = []) (dataset st)
           = filter (\<lambda>x. url_of x = []) (fed_records cats) \<and>
         pushed st = length (all_results_for_files st) \<and>
         skipped_dupes st = length (dup_positions {} (fed_records cats))"
proof -
  let ?rs = "fed_records cats"
  let ?E = "\<lambda>x. url_of x = []"
  from category_loop_first_seen[OF assms(1)]
  have all: "all_results_for_files st = first_seen {} ?rs"
    and ds: "dataset st = first_seen {} ?rs"
    and pu: "pushed st = length (first_seen {} ?rs)"
    and sk: "skipped_dupes st + length (first_seen {} ?rs) = length ?rs"
    by (simp_all add: initial_state_def)
  have r: "url_of r = []"
    using record_url_missing_or_empty[OF assms(2,3)] by (simp add: url_of_def)
  have fe: "filter ?E (first_seen {} ?rs) = filter ?E ?rs"
    by (rule first_seen_empty_urls)
  have "count_list (first_seen {} ?rs) r = count_list (filter ?E (first_seen {} ?rs)) r"
    using r by (simp add: count_list_filter)
  also have "\<dots> = count_list ?rs r"
    unfolding fe using r by (simp add: count_list_filter)
  finally have cnt: "count_list (first_seen {} ?rs) r = count_list ?rs r" .
  have "skipped_dupes st = length (dup_positions {} ?rs)"
    using sk first_seen_dup_positions[of "{}" ?rs] by arith
  with cnt fe show ?thesis
    unfolding all ds pu by simp
qed

theorem C10_empty_url_bypasses_dedup_witness:
  "category_loop ex_cfg initial_state (ex_cats @ [(ex_sales, Inr [row_nokey, row_y])])
     = Inr (ex_final\<lparr>pushed := 5, skipped_dupes := 2,
              all_results_for_files := [row_x, row_blank, row_y, row_nokey, row_nokey],
              dataset := [row_x, row_blank, row_y, row_nokey, row_nokey],
              category_stats := category_stats ex_final @
                [\<lparr>stat_category = ''Sales'', items_exported = 1,
                  stat_csv = Some ''OUTPUT_sales_20260101_000000.csv'', stat_xlsx = None\<rparr>],
              generated_files := generated_files ex_final @ [''OUTPUT_sales_20260101_000000.csv''],
              exports := exports ex_final @
                [([row_nokey], ''OUTPUT_sales_20260101_000000.csv'',
                  ''OUTPUT_sales_20260101_000000.xlsx'')]\<rparr>) \<and>
   count_list [row_x, row_blank, row_y, row_nokey, row_nokey] row_nokey
     = count_list (fed_records (ex_cats @ [(ex_sales, Inr [row_nokey, row_y])])) row_nokey \<and>
   count_list (fed_records (ex_cats @ [(ex_sales, Inr [row_nokey, row_y])])) row_nokey = 2 \<and>
   dup_positions {} (fed_records (ex_cats @ [(ex_sales, Inr [row_nokey, row_y])])) = [3, 6]"
proof -
  let ?cats = "ex_cats @ [(ex_sales, Inr [row_nokey, row_y])]"
  let ?st = "ex_final\<lparr>pushed := 5, skipped_dupes := 2,
              all_results_for_files := [row_x, row_blank, row_y, row_nokey, row_nokey],
              dataset := [row_x, row_blank, row_y, row_nokey, row_nokey],
              category_stats := category_stats ex_final @
                [\<lparr>stat_category = ''Sales'', items_exported = 1,
                  stat_csv = Some ''OUTPUT_sales_20260101_000000.csv'', stat_xlsx = None\<rparr>],
              generated_files := generated_files ex_final @ [''OUTPUT_sales_20260101_000000.csv''],
              exports := exports ex_final @
                [([row_nokey], ''OUTPUT_sales_20260101_000000.csv'',
                  ''OUTPUT_sales_20260101_000000.xlsx'')]\<rparr>"
  have run: "category_loop ex_cfg initial_state ?cats = Inr ?st"
    by code_simp
  have k1: "dict_get row_nokey ''products_url'' = PNone \<or> dict_get row_nokey ''products_url'' = PStr []"
    by code_simp
  have k2: "dict_get row_nokey ''product_url'' = PNone \<or> dict_get row_nokey ''product_url'' = PStr []"
    by code_simp
  have c2: "count_list (fed_records ?cats) row_nokey = 2"
    by code_simp
  have dp: "dup_positions {} (fed_records ?cats) = [3, 6]"
    by code_simp
  from C10_empty_url_bypasses_dedup[OF run k1 k2]
  have "count_list (all_results_for_files ?st) row_nokey = count_list (fed_records ?cats) row_nokey"
    by blast
  then have "count_list [row_x, row_blank, row_y, row_nokey, row_nokey] row_nokey
      = count_list (fed_records ?cats) row_nokey"
    by simp
  with run c2 dp show ?thesis
    by blast
qed

text \<open>
  Claim C6, as the code has it. A category whose scrape returns no record leaves the
  run's state as it was: no item, no file, and no entry in \<open>category_stats\<close> either
  (the entry is appended only inside \<open>if (export_csv or export_xlsx) and per_cat_results\<close>).
  The run is not aborted: the category loop and the summary are what they are without
  that category, except that the summary lists its name among the selected categories.
\<close>

theorem C6_empty_category_is_skipped:
  "category_step cfg st cat (Inr []) = Inr st \<and>
   category_loop cfg st (before @ (cat, Inr []) # after) = category_loop cfg st (before @ after) \<and>
   run_shopify_actor cfg (before @ (cat, Inr []) # after) =
     map_sum id
       (\<lambda>s. s\<lparr>sum_categories_selected :=
                 map (\<lambda>(c, _). cat_name c) (before @ (cat, Inr []) # after)\<rparr>)
       (run_shopify_actor cfg (before @ after))"
  by (simp add: category_step_no_items category_loop_skip_empty run_shopify_actor_def Let_def
      split: sum.splits)

theorem C6_empty_category_is_skipped_witness:
  "run_shopify_actor ex_cfg ([(ex_marketing, Inr [row_x])] @ (ex_sales, Inr []) # [(ex_marketing, Inr [row_y])]) =
     Inr \<lparr>sum_categories_selected = [''Marketing'', ''Sales'', ''Marketing''],
          sum_skipped_duplicates = 0, sum_pushed_to_dataset = 2,
          sum_per_category =
            [\<lparr>stat_category = ''Marketing'', items_exported = 1,
              stat_csv = Some ''OUTPUT_marketing_20260101_000000.csv'', stat_xlsx = None\<rparr>,
             \<lparr>stat_category = ''Marketing'', items_exported = 1,
              stat_csv = Some ''OUTPUT_marketing_20260101_000000.csv'', stat_xlsx = None\<rparr>],
          sum_combined_items_exported = 2,
          sum_files_generated =
            [''OUTPUT_marketing_20260101_000000.csv'', ''OUTPUT_marketing_20260101_000000.csv'',
             ''OUTPUT_20260101_000000.csv'']\<rparr>"
proof -
  have "run_shopify_actor ex_cfg ([(ex_marketing, Inr [row_x])] @ [(ex_marketing, Inr [row_y])]) =
     Inr \<lparr>sum_categories_selected = [''Marketing'', ''Marketing''],
          sum_skipped_duplicates = 0, sum_pushed_to_dataset = 2,
          sum_per_category =
            [\<lparr>stat_category = ''Marketing'', items_exported = 1,
              stat_csv = Some ''OUTPUT_marketing_20260101_000000.csv'', stat_xlsx = None\<rparr>,
             \<lparr>stat_category = ''Marketing'', items_exported = 1,
              stat_csv = Some ''OUTPUT_marketing_20260101_000000.csv'', stat_xlsx = None\<rparr>],
          sum_combined_items_exported = 2,
          sum_files_generated =
            [''OUTPUT_marketing_20260101_000000.csv'', ''OUTPUT_marketing_20260101_000000.csv'',
             ''OUTPUT_20260101_000000.csv'']\<rparr>"
    by code_simp
  moreover have "cat_name ex_marketing = ''Marketing''" "cat_name ex_sales = ''Sales''"
    by (simp_all add: ex_marketing_def ex_sales_def)
  ultimately show ?thesis
    using C6_empty_category_is_skipped[of ex_cfg initial_state ex_sales
        "[(ex_marketing, Inr [row_x])]" "[(ex_marketing, Inr [row_y])]"]
    by simp
qed

text \<open>
  Claim C6 as stated fails on the statistics: a run whose only category yields no item
  ends with an empty \<open>per_category\<close> list, not with an entry of zero exports.
\<close>

theorem C6_counterexample:
  "run_shopify_actor ex_cfg [(ex_marketing, Inr [])] =
     Inr \<lparr>sum_categories_selected = [''Marketing''],
          sum_skipped_duplicates = 0, sum_pushed_to_dataset = 0,
          sum_per_category = [],
          sum_combined_items_exported = 0,
          sum_files_generated = []\<rparr>"
  by code_simp

section \<open>Properties of the listing extractor\<close>

lemma set_strip_with: "set (strip_with p s) \<subseteq> set s"
  unfolding strip_with_def
  by (metis set_dropWhileD set_rev subsetI)

lemma dropWhile_hd_id: "xs \<noteq> [] \<Longrightarrow> \<not> p (hd xs) \<Longrightarrow> dropWhile p xs = xs"
  by (cases xs) auto

lemma strip_with_id: "s \<noteq> [] \<Longrightarrow> \<not> p (hd s) \<Longrightarrow> \<not> p (last s) \<Longrightarrow> strip_with p s = s"
  unfolding strip_with_def
  by (simp add: dropWhile_hd_id hd_rev)

lemma strip_with_Nil: "strip_with p [] = []"
  by (simp add: strip_with_def)

lemma py_replace_Nil: "old \<noteq> [] \<Longrightarrow> py_replace old new [] = []"
  by (simp add: py_replace.simps)

lemma py_replace_no_prefix:
  "old \<noteq> [] \<Longrightarrow> \<not> prefix old (c # cs) \<Longrightarrow> py_replace old new (c # cs) = c # py_replace old new cs"
  by (subst py_replace.simps) simp

lemma py_replace_prefix:
  "old \<noteq> [] \<Longrightarrow> py_replace old new (old @ s) = new @ py_replace old new s"
  by (subst py_replace.simps) (cases old, auto)

lemma store_prefix_ne: "store_prefix \<noteq> []"
  by (simp add: store_prefix_def)

lemma py_replace_slug:
  "\<forall>i<length s. \<not> prefix store_prefix (drop i (s @ rest)) \<Longrightarrow>
   py_replace store_prefix [] (s @ rest) = s @ py_replace store_prefix [] rest"
proof (induction s)
  case Nil
  show ?case by simp
next
  case (Cons a s)
  from Cons.prems have "0 < length (a # s) \<longrightarrow> \<not> prefix store_prefix (drop 0 ((a # s) @ rest))"
    by (rule spec)
  then have "\<not> prefix store_prefix (a # s @ rest)"
    by simp
  then have step: "py_replace store_prefix [] ((a # s) @ rest)
      = a # py_replace store_prefix [] (s @ rest)"
    by (simp add: py_replace_no_prefix store_prefix_ne)
  have "\<forall>i<length s. \<not> prefix store_prefix (drop i (s @ rest))"
  proof (intro allI impI)
    fix i assume "i < length s"
    then have "Suc i < length (a # s)" by simp
    moreover from Cons.prems
    have "Suc i < length (a # s) \<longrightarrow> \<not> prefix store_prefix (drop (Suc i) ((a # s) @ rest))"
      by (rule spec)
    ultimately have "\<not> prefix store_prefix (drop (Suc i) ((a # s) @ rest))"
      by (rule rev_mp)
    then show "\<not> prefix store_prefix (drop i (s @ rest))" by simp
  qed
  with Cons.IH step show ?case by simp
qed

lemma no_h_no_prefix:
  assumes "CHR ''h'' \<notin> set s"
  shows "\<forall>i<length s. \<not> prefix store_prefix (drop i (s @ rest))"
proof (intro allI impI notI)
  fix i assume i: "i < length s" and p: "prefix store_prefix (drop i (s @ rest))"
  from i have "drop i (s @ rest) = s ! i # drop (Suc i) s @ rest"
    by (simp add: Cons_nth_drop_Suc)
  with p have "s ! i = CHR ''h''"
    by (simp add: store_prefix_def)
  with i assms show False
    by (metis nth_mem)
qed

lemma last_dropWhile_ne: "dropWhile p xs \<noteq> [] \<Longrightarrow> last (dropWhile p xs) = last xs"
  by (induction xs) (auto split: if_splits)

lemma strip_with_ends:
  assumes "strip_with p s \<noteq> []"
  shows "\<not> p (hd (strip_with p s))" and "\<not> p (last (strip_with p s))"
proof -
  let ?a = "dropWhile p s"
  let ?b = "dropWhile p (rev ?a)"
  have b: "?b \<noteq> []"
    using assms by (simp add: strip_with_def)
  have "\<not> p (hd ?b)"
    using b by (rule hd_dropWhile)
  then show "\<not> p (last (strip_with p s))"
    unfolding strip_with_def using b by (simp add: last_rev)
  have a: "?a \<noteq> []"
  proof
    assume e: "?a = []"
    have "?b = []" unfolding e by simp
    with b show False by simp
  qed
  then have pa: "\<not> p (hd ?a)"
    by (rule hd_dropWhile)
  have "hd (rev ?b) = last ?b"
    using b by (simp add: hd_rev)
  also have "\<dots> = last (rev ?a)"
    using b by (rule last_dropWhile_ne)
  also have "\<dots> = hd ?a"
    using a by (simp add: last_rev)
  finally show "\<not> p (hd (strip_with p s))"
    using pa by (simp add: strip_with_def)
qed

lemma strip_with_idem: "strip_with p (strip_with p s) = strip_with p s"
proof (cases "strip_with p s = []")
  case True
  then show ?thesis by (simp add: strip_with_Nil)
next
  case False
  with strip_with_ends[OF False] show ?thesis
    by (intro strip_with_id)
qed

lemma py_replace_sep:
  "c = CHR ''/'' \<or> c = CHR ''?'' \<Longrightarrow>
   py_replace store_prefix [] (c # r) = c # py_replace store_prefix [] r"
  by (rule py_replace_no_prefix) (auto simp: store_prefix_def)

lemma strip_slashes_keeps_first_segment:
  assumes "s \<noteq> []" "CHR ''/'' \<notin> set s"
  shows "before_first (CHR ''/'') (py_strip_chars ''/'' (s @ CHR ''/'' # x)) = s"
proof -
  let ?p = "\<lambda>c. c \<in> set ''/''"
  have hd: "\<not> ?p (hd (s @ CHR ''/'' # x))"
    using assms by (cases s) auto
  then have dw: "dropWhile ?p (s @ CHR ''/'' # x) = s @ CHR ''/'' # x"
    using assms by (cases s) auto
  have lst: "\<not> ?p (hd (rev s))"
    using assms by (cases "rev s") (auto simp: hd_rev)
  have rs: "rev s \<noteq> []" using assms by simp
  have "dropWhile ?p (rev (s @ CHR ''/'' # x)) =
      (if \<forall>c\<in>set (rev x @ [CHR ''/'']). ?p c then rev s
       else dropWhile ?p (rev x @ [CHR ''/'']) @ rev s)"
    using lst rs by (cases "rev s") (auto simp: dropWhile_append)
  moreover have "\<exists>y. rev (dropWhile ?p (rev x @ [CHR ''/''])) = CHR ''/'' # y"
    if "\<not> (\<forall>c\<in>set (rev x @ [CHR ''/'']). ?p c)"
  proof -
    from that have ne: "dropWhile ?p (rev x) \<noteq> []" by auto
    then have "dropWhile ?p (rev x @ [CHR ''/'']) = dropWhile ?p (rev x) @ [CHR ''/'']"
      by (simp add: dropWhile_append)
    then show ?thesis by simp
  qed
  ultimately have "py_strip_chars ''/'' (s @ CHR ''/'' # x) = s
      \<or> (\<exists>y. py_strip_chars ''/'' (s @ CHR ''/'' # x) = s @ CHR ''/'' # y)"
    unfolding py_strip_chars_def strip_with_def dw
    by (cases "\<forall>c\<in>set (rev x @ [CHR ''/'']). ?p c") auto
  then show ?thesis
    using assms by (auto simp: before_first_def takeWhile_tail)
qed

lemma slug_of_clean_href:
  assumes s: "s \<noteq> []" "CHR ''/'' \<notin> set s" "CHR ''?'' \<notin> set s"
    and occ: "\<forall>i<length s. \<not> prefix store_prefix (drop i (s @ rest))"
    and rest: "rest = [] \<or> hd rest = CHR ''/'' \<or> hd rest = CHR ''?''"
  shows "href_slug (store_prefix @ s @ rest) = py_strip s"
proof -
  have r1: "py_replace store_prefix [] (store_prefix @ s @ rest) = s @ py_replace store_prefix [] rest"
    using py_replace_prefix[OF store_prefix_ne, of "[]" "s @ rest"] py_replace_slug[OF occ]
    by simp
  have nsl: "py_strip_chars ''/'' s = s"
    unfolding py_strip_chars_def using s(1,2)
    by (intro strip_with_id) (auto dest: hd_in_set last_in_set)
  have bq: "before_first (CHR ''?'') s = s" and bs: "before_first (CHR ''/'') s = s"
    using s by (auto simp: before_first_def)
  consider (nil) "rest = []" | (slash) r where "rest = CHR ''/'' # r" | (query) r where "rest = CHR ''?'' # r"
    using rest by (cases rest) auto
  then show ?thesis
  proof cases
    case nil
    then show ?thesis
      unfolding href_slug_def r1 by (simp add: py_replace_Nil store_prefix_ne bq nsl bs)
  next
    case (query r)
    have "before_first (CHR ''?'') (s @ py_replace store_prefix [] rest) = s"
      unfolding query using s(3) by (auto simp: py_replace_sep before_first_def takeWhile_tail)
    then show ?thesis
      unfolding href_slug_def r1 by (simp add: nsl bs)
  next
    case (slash r)
    have "before_first (CHR ''?'') (s @ py_replace store_prefix [] rest)
        = s @ CHR ''/'' # before_first (CHR ''?'') (py_replace store_prefix [] r)"
      unfolding slash before_first_def using s(3)
      by (subst takeWhile_append2) (auto simp: py_replace_sep)
    then show ?thesis
      unfolding href_slug_def r1
      by (simp add: strip_slashes_keeps_first_segment[OF s(1,2)])
  qed
qed

lemma href_slug_chars:
  "CHR ''/'' \<notin> set (href_slug href) \<and> CHR ''?'' \<notin> set (href_slug href)"
proof -
  let ?a = "py_replace store_prefix [] href"
  let ?b = "before_first (CHR ''?'') ?a"
  let ?c = "py_strip_chars ''/'' ?b"
  let ?d = "before_first (CHR ''/'') ?c"
  have b: "CHR ''?'' \<notin> set ?b"
    by (auto simp: before_first_def dest: set_takeWhileD)
  have c: "set ?c \<subseteq> set ?b"
    unfolding py_strip_chars_def by (rule set_strip_with)
  have d1: "CHR ''/'' \<notin> set ?d"
    by (auto simp: before_first_def dest: set_takeWhileD)
  have d2: "set ?d \<subseteq> set ?c"
    by (auto simp: before_first_def dest: set_takeWhileD)
  have e: "set (href_slug href) \<subseteq> set ?d"
    unfolding href_slug_def py_strip_def by (rule set_strip_with)
  from b c d1 d2 e show ?thesis by blast
qed

lemma canonical_url_clean_href:
  assumes "CHR ''/'' \<notin> set s" "CHR ''?'' \<notin> set s"
    and "\<forall>i<length s. \<not> prefix store_prefix (drop i (s @ rest))"
    and "py_strip s \<noteq> []" "py_strip s \<notin> reserved_slugs"
    and "rest = [] \<or> hd rest = CHR ''/'' \<or> hd rest = CHR ''?''"
  shows "canonical_url (store_prefix @ s @ rest) = Some (store_prefix @ py_strip s)"
proof -
  from assms(4) have "s \<noteq> []"
    by (auto simp: py_strip_def strip_with_Nil)
  from slug_of_clean_href[OF this assms(1,2,3,6)] assms(4,5) show ?thesis
    by (simp add: canonical_url_def)
qed

lemma canonical_url_shape:
  assumes "canonical_url href = Some u"
  shows "\<exists>slug. u = store_prefix @ slug \<and> slug \<noteq> [] \<and> slug \<notin> reserved_slugs \<and>
           CHR ''/'' \<notin> set slug \<and> CHR ''?'' \<notin> set slug"
  using assms href_slug_chars[of href]
  by (auto simp: canonical_url_def Let_def split: if_splits)

lemma canonical_url_stripped:
  assumes "canonical_url href = Some u"
  shows "u \<noteq> [] \<and> py_strip u = u"
proof -
  from assms have u: "u = store_prefix @ href_slug href" and ne: "href_slug href \<noteq> []"
    by (auto simp: canonical_url_def Let_def split: if_splits)
  have "href_slug href = py_strip (before_first (CHR ''/'')
       (py_strip_chars ''/'' (before_first (CHR ''?'') (py_replace store_prefix [] href))))"
    by (simp add: href_slug_def)
  then obtain x where x: "href_slug href = strip_with py_isspace x"
    unfolding py_strip_def by blast
  from ne have "\<not> py_isspace (last (href_slug href))"
    unfolding x by (rule strip_with_ends(2))
  with ne have "\<not> py_isspace (last u)"
    by (simp add: u)
  moreover have "\<not> py_isspace (hd u)"
    by (simp add: u store_prefix_def py_isspace_def)
  moreover have "u \<noteq> []"
    by (simp add: u store_prefix_def)
  ultimately show ?thesis
    unfolding py_strip_def by (simp add: strip_with_id)
qed

text \<open>
  Claim C2, as the code has it. The canonical item URL of a link is the store prefix
  \<open>https://apps.shopify.com/\<close> followed by one non-empty path segment: it holds no
  further \<open>/\<close> and no \<open>?\<close>. Take a link \<open>prefix + s + rest\<close> whose first segment \<open>s\<close> holds
  no \<open>/\<close> and no \<open>?\<close> and whose \<open>rest\<close> is empty or starts with \<open>/\<close> or \<open>?\<close>. Its canonical
  URL is \<open>prefix + s.strip()\<close>, the same as that of \<open>prefix + s\<close>: the query string,
  trailing slashes, further path segments and white space around the segment are
  dropped. A fragment is not: the code splits at \<open>?\<close> and \<open>/\<close> only, so a fragment that
  follows the segment directly is part of \<open>s\<close> and of the canonical URL. Three provisos
  come from the code: the stripped segment is not empty and not one of the four
  reserved words (such links are skipped), and no further occurrence of the store
  prefix starts inside the segment (\<open>str.replace\<close> removes every occurrence, not only
  the leading one).
\<close>

theorem C2_canonical_url:
  assumes "CHR ''/'' \<notin> set s" "CHR ''?'' \<notin> set s"
    and "\<forall>i<length s. \<not> prefix store_prefix (drop i (s @ rest))"
    and "py_strip s \<noteq> []" "py_strip s \<notin> reserved_slugs"
    and "rest = [] \<or> hd rest = CHR ''/'' \<or> hd rest = CHR ''?''"
    and "canonical_url href = Some u"
  shows "canonical_url (store_prefix @ s @ rest) = Some (store_prefix @ py_strip s) \<and>
         canonical_url (store_prefix @ s @ rest) = canonical_url (store_prefix @ s) \<and>
         (\<exists>slug. u = store_prefix @ slug \<and> slug \<noteq> [] \<and>
                 CHR ''/'' \<notin> set slug \<and> CHR ''?'' \<notin> set slug)"
proof -
  have a: "canonical_url (store_prefix @ s @ rest) = Some (store_prefix @ py_strip s)"
    using assms(1-6) by (rule canonical_url_clean_href)
  have "\<forall>i<length s. \<not> prefix store_prefix (drop i (s @ []))"
  proof (intro allI impI notI)
    fix i assume i: "i < length s" and p: "prefix store_prefix (drop i (s @ []))"
    from i have "drop i (s @ rest) = drop i (s @ []) @ rest"
      by simp
    with p have "prefix store_prefix (drop i (s @ rest))"
      by (metis prefix_prefix)
    with i assms(3) show False
      by blast
  qed
  with assms(1,2) have "canonical_url (store_prefix @ s @ []) = Some (store_prefix @ py_strip s)"
    using assms(4,5) by (rule canonical_url_clean_href) simp
  then have b: "canonical_url (store_prefix @ s) = Some (store_prefix @ py_strip s)"
    by simp
  from canonical_url_shape[OF assms(7)] a b show ?thesis
    by auto
qed

theorem C2_canonical_url_witness:
  "canonical_url ''https://apps.shopify.com/app-x/?ref=abc'' = Some ''https://apps.shopify.com/app-x'' \<and>
   canonical_url ''https://apps.shopify.com/app-x/?ref=abc'' = canonical_url ''https://apps.shopify.com/app-x'' \<and>
   canonical_url ''https://apps.shopify.com/app-y/reviews?page=2'' = Some ''https://apps.shopify.com/app-y'' \<and>
   (\<exists>slug. ''https://apps.shopify.com/app-y'' = store_prefix @ slug \<and> slug \<noteq> [] \<and>
           CHR ''/'' \<notin> set slug \<and> CHR ''?'' \<notin> set slug)"
proof -
  have h: "canonical_url ''https://apps.shopify.com/app-y/reviews?page=2''
      = Some ''https://apps.shopify.com/app-y''"
    by code_simp
  have occ: "\<forall>i<length ''app-x''. \<not> prefix store_prefix (drop i (''app-x'' @ ''/?ref=abc''))"
    by (rule no_h_no_prefix) simp
  have st: "py_strip ''app-x'' = ''app-x''"
    by code_simp
  have sp: "py_strip ''app-x'' \<noteq> []"
    unfolding st by simp
  have nr: "py_strip ''app-x'' \<notin> reserved_slugs"
    unfolding st by (simp add: reserved_slugs_def)
  have "canonical_url (store_prefix @ ''app-x'' @ ''/?ref=abc'') = Some (store_prefix @ py_strip ''app-x'') \<and>
      canonical_url (store_prefix @ ''app-x'' @ ''/?ref=abc'') = canonical_url (store_prefix @ ''app-x'') \<and>
      (\<exists>slug. ''https://apps.shopify.com/app-y'' = store_prefix @ slug \<and> slug \<noteq> [] \<and>
              CHR ''/'' \<notin> set slug \<and> CHR ''?'' \<notin> set slug)"
    by (rule C2_canonical_url[OF _ _ occ sp nr _ h]) simp_all
  moreover have "canonical_url ''https://apps.shopify.com/app-x'' = Some ''https://apps.shopify.com/app-x''"
    by code_simp
  ultimately show ?thesis
    using h unfolding st by (simp add: store_prefix_def)
qed

text \<open>
  Claim C2 as stated fails on fragments: a link that differs from another only by a
  fragment gets a different canonical URL, fragment included. It also fails for a link
  in which the store prefix occurs a second time, inside the first segment: every
  occurrence is removed and what is left of the segment is joined with what follows.
  (Links on the host of the spec's example, \<open>store.example\<close>, get no canonical URL at
  all: the extractor accepts the prefix \<open>https://apps.shopify.com/\<close> only.)
\<close>

theorem C2_counterexample:
  "canonical_url ''https://apps.shopify.com/app-x#reviews'' = Some ''https://apps.shopify.com/app-x#reviews'' \<and>
   canonical_url ''https://apps.shopify.com/app-x'' = Some ''https://apps.shopify.com/app-x'' \<and>
   canonical_url ''https://apps.shopify.com/ahttps://apps.shopify.com/b'' = Some ''https://apps.shopify.com/ab'' \<and>
   canonical_url ''https://store.example/app-x/?ref=abc'' = None \<and>
   canonical_url ''https://store.example/app-x'' = None"
  by code_simp

lemma first_occurrences_fresh: "x \<in> set (first_occurrences S xs) \<Longrightarrow> x \<notin> S"
  by (induction xs arbitrary: S) (auto split: if_splits)

lemma first_occurrences_distinct: "distinct (first_occurrences S xs)"
  by (induction xs arbitrary: S) (auto dest: first_occurrences_fresh)

lemma first_occurrences_subseq: "subseq (first_occurrences S xs) xs"
  by (induction xs arbitrary: S) auto

lemma dict_get_make_row_url: "dict_get (make_row cat name u) ''products_url'' = PStr u"
  by (simp add: dict_get_def make_row_def)

lemma dict_get_make_row_category:
  "dict_get (make_row cat name u) ''Apps category'' = PStr (py_strip (cat_name cat))"
  by (simp add: dict_get_def make_row_def)

lemma link_loop_urls:
  "map (\<lambda>r. dict_get r ''products_url'') (link_loop cat limit (seen, rows) links) =
     map (\<lambda>r. dict_get r ''products_url'') rows @
     map PStr (take (nat (max 1 (limit - int (length rows))))
                    (first_occurrences seen (List.map_filter link_url links)))"
proof (induction links arbitrary: seen rows)
  case Nil
  show ?case by simp
next
  case (Cons a links)
  let ?href = "case link_href a of None \<Rightarrow> [] | Some h \<Rightarrow> h"
  show ?case
  proof (cases "canonical_url ?href")
    case None
    then have "link_url a = None" by (simp add: link_url_def)
    with None Cons.IH[of seen rows] show ?thesis by simp
  next
    case (Some u)
    then have lu: "link_url a = Some u" by (simp add: link_url_def)
    show ?thesis
    proof (cases "u \<in> seen")
      case True
      with Some lu Cons.IH[of seen rows] show ?thesis by simp
    next
      case False
      let ?rows1 = "rows @ [make_row cat (link_name a ?href) u]"
      show ?thesis
      proof (cases "int (length ?rows1) \<ge> limit")
        case True
        then have "nat (max 1 (limit - int (length rows))) = Suc 0" by simp
        with True Some lu False show ?thesis
          by (simp add: dict_get_make_row_url Let_def)
      next
        case ge: False
        then have "nat (max 1 (limit - int (length rows)))
            = Suc (nat (max 1 (limit - int (length ?rows1))))" by simp
        with ge Some lu False Cons.IH[of "insert u seen" ?rows1] show ?thesis
          by (simp add: dict_get_make_row_url Let_def)
      qed
    qed
  qed
qed

lemma link_loop_rows:
  "(\<And>r. r \<in> set rows \<Longrightarrow> \<exists>name href u. canonical_url href = Some u \<and> r = make_row cat name u) \<Longrightarrow>
   r \<in> set (link_loop cat limit (seen, rows) links) \<Longrightarrow>
   \<exists>name href u. canonical_url href = Some u \<and> r = make_row cat name u"
proof (induction links arbitrary: seen rows)
  case Nil
  then show ?case by simp
next
  case (Cons a links)
  let ?href = "case link_href a of None \<Rightarrow> [] | Some h \<Rightarrow> h"
  show ?case
  proof (cases "canonical_url ?href")
    case None
    with Cons.prems(2) have "r \<in> set (link_loop cat limit (seen, rows) links)"
      by simp
    with Cons.IH[of rows seen] Cons.prems(1) show ?thesis
      by blast
  next
    case (Some u)
    let ?rows1 = "rows @ [make_row cat (link_name a ?href) u]"
    have r1: "\<And>r. r \<in> set ?rows1 \<Longrightarrow>
        \<exists>name href u. canonical_url href = Some u \<and> r = make_row cat name u"
    proof -
      fix r assume "r \<in> set ?rows1"
      then consider "r \<in> set rows" | "r = make_row cat (link_name a ?href) u"
        by auto
      then show "\<exists>name href u. canonical_url href = Some u \<and> r = make_row cat name u"
      proof cases
        case 1
        then show ?thesis by (rule Cons.prems(1))
      next
        case 2
        with Some show ?thesis by blast
      qed
    qed
    show ?thesis
    proof (cases "u \<in> seen")
      case True
      with Some Cons.prems(2) have "r \<in> set (link_loop cat limit (seen, rows) links)"
        by simp
      with Cons.IH[of rows seen] Cons.prems(1) show ?thesis
        by blast
    next
      case False
      show ?thesis
      proof (cases "int (length ?rows1) \<ge> limit")
        case True
        with Some False Cons.prems(2) have "r \<in> set ?rows1"
          by (simp add: Let_def)
        then show ?thesis by (rule r1)
      next
        case ge: False
        with Some False Cons.prems(2) have "r \<in> set (link_loop cat limit (insert u seen, ?rows1) links)"
          by (simp add: Let_def)
        with Cons.IH[of ?rows1 "insert u seen"] r1 show ?thesis
          by blast
      qed
    qed
  qed
qed

text \<open>
  What the listing extractor returns in general: rows of the category, one for each of
  the first \<open>max 1 limit\<close> item URLs the page offers, in page order. So it returns at
  most \<open>limit\<close> records whenever \<open>limit\<close> is at least 1.
\<close>

lemma extract_products_urls:
  assumes "extract_products_from_category page cat limit = Inr rows"
  shows "map (\<lambda>r. dict_get r ''products_url'') rows
           = map PStr (take (nat (max 1 limit)) (offered_urls (page_links page))) \<and>
         (\<forall>r\<in>set rows. dict_get r ''Apps category'' = PStr (py_strip (cat_name cat)))"
proof (cases "page_links page = []")
  case True
  with assms have "rows = []"
    by (auto simp: extract_products_from_category_def page_links_def Let_def
        split: option.splits if_splits)
  with True show ?thesis
    by (simp add: offered_urls_def map_filter_simps)
next
  case False
  with assms have l: "rows = link_loop cat limit ({}, []) (page_links page)"
    by (auto simp: extract_products_from_category_def page_links_def Let_def
        split: option.splits if_splits)
  have "\<forall>r\<in>set rows. \<exists>name u. r = make_row cat name u"
    unfolding l using link_loop_rows[of "[]" cat _ limit "{}" "page_links page"] by fastforce
  then have "\<forall>r\<in>set rows. dict_get r ''Apps category'' = PStr (py_strip (cat_name cat))"
    by (auto simp: dict_get_make_row_category)
  moreover have "map (\<lambda>r. dict_get r ''products_url'') rows
      = map PStr (take (nat (max 1 limit)) (offered_urls (page_links page)))"
    unfolding l offered_urls_def using link_loop_urls[of cat limit "{}" "[]" "page_links page"] by simp
  ultimately show ?thesis by blast
qed

lemma extract_products_rows:
  assumes "extract_products_from_category page cat limit = Inr rows" and "r \<in> set rows"
  shows "\<exists>name href u. canonical_url href = Some u \<and> r = make_row cat name u"
proof -
  from assms obtain links where "r \<in> set (link_loop cat limit ({}, []) links)"
    by (auto simp: extract_products_from_category_def Let_def split: option.splits if_splits)
  with link_loop_rows[of "[]" cat r limit "{}" links] show ?thesis
    by simp
qed

lemma extract_products_bounded:
  assumes "extract_products_from_category page cat limit = Inr rows" and "1 \<le> limit"
  shows "int (length rows) \<le> limit \<and> distinct (map (\<lambda>r. dict_get r ''products_url'') rows)"
proof -
  let ?links = "page_links page"
  from extract_products_urls[OF assms(1)] have
    m: "map (\<lambda>r. dict_get r ''products_url'') rows
         = map PStr (take (nat (max 1 limit)) (offered_urls ?links))"
    by (rule conjunct1)
  have "length rows = length (map (\<lambda>r. dict_get r ''products_url'') rows)"
    by simp
  also have "\<dots> \<le> nat (max 1 limit)"
    unfolding m by simp
  finally have "int (length rows) \<le> limit"
    using assms(2) by simp
  moreover have "distinct (map PStr (take (nat (max 1 limit)) (offered_urls ?links)))"
    unfolding offered_urls_def
    by (simp add: distinct_map first_occurrences_distinct inj_on_def)
  ultimately show ?thesis
    using m by simp
qed

text \<open>
  Claim C8 fails at \<open>limit = 0\<close>: the loop tests \<open>len(rows) >= limit\<close> only after it has
  appended a row, so a page with matching links yields one record where the claim
  allows none. With \<open>limit = 2\<close> the same page yields its two records, in page order.
\<close>

theorem C8_limit_zero_returns_one_record:
  "extract_products_from_category ex_listing_page ex_marketing 0 =
     Inr [make_row ex_marketing ''App X'' ''https://apps.shopify.com/app-x''] \<and>
   extract_products_from_category ex_listing_page ex_marketing 2 =
     Inr [make_row ex_marketing ''App X'' ''https://apps.shopify.com/app-x'',
          make_row ex_marketing ''App Y'' ''https://apps.shopify.com/app-y'']"
  by code_simp

section \<open>Properties of the price extraction and of the enrichment\<close>

lemma star_matches_suffix: "rest \<in> set (star_matches ic a s) \<Longrightarrow> \<exists>m. s = m @ rest"
proof (induction s)
  case Nil
  then show ?case by simp
next
  case (Cons c cs)
  then show ?case
    by (auto split: if_splits)
qed

lemma matches_suffix: "rest \<in> set (matches ic r s) \<Longrightarrow> \<exists>m. s = m @ rest"
proof (induction r arbitrary: s rest)
  case Eps
  then show ?case by simp
next
  case (Atom a)
  then show ?case by (cases s) (auto split: if_splits)
next
  case (Seq r1 r2)
  from Seq.prems obtain s' where "s' \<in> set (matches ic r1 s)" "rest \<in> set (matches ic r2 s')"
    by auto
  with Seq.IH show ?case
    by (metis append.assoc)
next
  case (Alt r1 r2)
  then show ?case by auto
next
  case (Opt r)
  then show ?case by auto
next
  case (Star a)
  then show ?case by (simp add: star_matches_suffix)
qed

text \<open>
  \<open>re_search\<close> finds the leftmost match: the text splits into a part before the match
  at no position of which the pattern matches, the match, and the rest.
\<close>

lemma re_search_Some:
  "re_search ic r s = Some m \<Longrightarrow>
     \<exists>pre rest. s = pre @ m @ rest \<and> matches ic r (m @ rest) \<noteq> [] \<and>
                hd (matches ic r (m @ rest)) = rest \<and>
                (\<forall>i<length pre. matches ic r (drop i s) = [])"
proof (induction s)
  case Nil
  then obtain rest rs where ms: "matches ic r [] = rest # rs" and m: "m = []"
    by (auto split: list.splits)
  then have "rest \<in> set (matches ic r [])"
    by simp
  from matches_suffix[OF this] have "rest = []"
    by simp
  with ms m show ?case
    by (intro exI[of _ "[]"]) simp
next
  case (Cons c cs)
  show ?case
  proof (cases "matches ic r (c # cs)")
    case Nil
    with Cons.prems have "re_search ic r cs = Some m"
      by simp
    from Cons.IH[OF this] obtain pre rest where
      p: "cs = pre @ m @ rest" "matches ic r (m @ rest) \<noteq> []"
         "hd (matches ic r (m @ rest)) = rest" "\<forall>i<length pre. matches ic r (drop i cs) = []"
      by blast
    have "\<forall>i<length (c # pre). matches ic r (drop i (c # cs)) = []"
    proof (intro allI impI)
      fix i
      assume "i < length (c # pre)"
      then show "matches ic r (drop i (c # cs)) = []"
        using Nil p(4) by (cases i) auto
    qed
    with p(1-3) show ?thesis
      by (intro exI[of _ "c # pre"] exI[of _ rest]) simp
  next
    case (Cons rest rs)
    then have "rest \<in> set (matches ic r (c # cs))"
      by simp
    from matches_suffix[OF this] obtain m' where m': "c # cs = m' @ rest"
      by blast
    then have "take (length (c # cs) - length rest) (c # cs) = m'"
      by (metis add_diff_cancel_right' append_eq_conv_conj length_append)
    with Cons Cons.prems have "m = m'"
      by simp
    with m' Cons show ?thesis
      by (intro exI[of _ "[]"] exI[of _ rest]) simp
  qed
qed

lemma re_search_None:
  "re_search ic r s = None \<Longrightarrow> i \<le> length s \<Longrightarrow> matches ic r (drop i s) = []"
proof (induction s arbitrary: i)
  case Nil
  then show ?case by (auto split: list.splits)
next
  case (Cons c cs)
  from Cons.prems(1) have n: "matches ic r (c # cs) = []" and r: "re_search ic r cs = None"
    by (auto split: list.splits)
  show ?case
  proof (cases i)
    case 0
    with n show ?thesis by simp
  next
    case (Suc j)
    with Cons.prems(2) Cons.IH[OF r, of j] show ?thesis by simp
  qed
qed

lemma to_lower_space: "py_isspace d \<Longrightarrow> to_lower d = d"
  by (auto simp: py_isspace_def to_lower_def is_upper_def)

lemma is_digit_nonspace: "is_digit d \<Longrightarrow> \<not> py_isspace d"
  by (auto simp: py_isspace_def is_digit_def)

lemma to_upper_space: "py_isspace d \<Longrightarrow> to_upper d = d"
  by (auto simp: py_isspace_def to_upper_def is_lower_def)

lemma range_nonspace:
  "(32::nat) < of_char lo \<Longrightarrow> (of_char hi :: nat) < 133 \<Longrightarrow> in_range lo hi d \<Longrightarrow> \<not> py_isspace d"
  by (auto simp: py_isspace_def in_range_def)

lemma atom_nonspace_ok: "atom_nonspace a \<Longrightarrow> atom_ok ic a d \<Longrightarrow> \<not> py_isspace d"
proof (cases a)
  case (Lit c)
  assume "atom_nonspace a" "atom_ok ic a d"
  with Lit show ?thesis
    using to_lower_space[of d] by (cases ic) auto
next
  case Space
  assume "atom_nonspace a"
  with Space show ?thesis by simp
next
  case Digit
  assume "atom_ok ic a d"
  with Digit show ?thesis by (simp add: is_digit_nonspace)
next
  case (Range lo hi)
  assume ns: "atom_nonspace a" and ok: "atom_ok ic a d"
  show ?thesis
  proof
    assume sp: "py_isspace d"
    then have "to_lower d = d" "to_upper d = d"
      by (simp_all add: to_lower_space to_upper_space)
    with ok Range have "in_range lo hi d"
      by (cases ic) simp_all
    with ns Range range_nonspace[of lo hi d] sp show False
      by simp
  qed
qed

lemma star_matches_consumed:
  "rest \<in> set (star_matches ic a s) \<Longrightarrow> \<exists>m. s = m @ rest \<and> (\<forall>c\<in>set m. atom_ok ic a c)"
proof (induction s)
  case Nil
  then show ?case by simp
next
  case (Cons c cs)
  show ?case
  proof (cases "rest = c # cs")
    case True
    then show ?thesis by simp
  next
    case False
    with Cons.prems have ok: "atom_ok ic a c" and "rest \<in> set (star_matches ic a cs)"
      by (auto split: if_splits)
    from Cons.IH[OF this(2)] obtain m where "cs = m @ rest" "\<forall>c\<in>set m. atom_ok ic a c"
      by blast
    with ok show ?thesis
      by (intro exI[of _ "c # m"]) simp
  qed
qed

lemma matches_nullable: "s \<in> set (matches ic r s) \<Longrightarrow> nullable r"
proof (induction r arbitrary: s)
  case (Atom a)
  show ?case
  proof (cases s)
    case Nil
    with Atom show ?thesis by simp
  next
    case (Cons c cs)
    with Atom show ?thesis by (simp split: if_splits)
  qed
next
  case (Seq r1 r2)
  from Seq.prems obtain mid where m: "mid \<in> set (matches ic r1 s)" "s \<in> set (matches ic r2 mid)"
    by auto
  from matches_suffix[OF m(1)] matches_suffix[OF m(2)] have "mid = s"
    by (metis append_self_conv2 append.assoc append_is_Nil_conv)
  with m Seq.IH show ?case by auto
next
  case (Alt r1 r2)
  then show ?case by auto
qed simp_all

lemma matches_ends_nonspace:
  "ends_nonspace r \<Longrightarrow> rest \<in> set (matches ic r (m @ rest)) \<Longrightarrow> m \<noteq> [] \<Longrightarrow> \<not> py_isspace (last m)"
proof (induction r arbitrary: m rest)
  case Eps
  then show ?case by simp
next
  case (Atom a)
  then show ?case
    by (cases m) (auto split: if_splits dest: atom_nonspace_ok)
next
  case (Seq r1 r2)
  from Seq.prems(2) obtain mid where
    m: "mid \<in> set (matches ic r1 (m @ rest))" "rest \<in> set (matches ic r2 mid)"
    by auto
  from matches_suffix[OF m(2)] obtain m2 where m2: "mid = m2 @ rest" by blast
  from matches_suffix[OF m(1)] obtain m1 where "m @ rest = m1 @ mid" by blast
  with m2 have mm: "m = m1 @ m2" by simp
  show ?case
  proof (cases "m2 = []")
    case True
    with m m2 have "nullable r2" by (auto dest: matches_nullable)
    with Seq.prems(1) have e1: "ends_nonspace r1" by simp
    from m(1) m2 True mm have "rest \<in> set (matches ic r1 (m @ rest))" by simp
    from Seq.IH(1)[OF e1 this Seq.prems(3)] show ?thesis .
  next
    case False
    from Seq.prems(1) have e2: "ends_nonspace r2" by simp
    from m(2) m2 have "rest \<in> set (matches ic r2 (m2 @ rest))" by simp
    from Seq.IH(2)[OF e2 this False] False mm show ?thesis by simp
  qed
next
  case (Alt r1 r2)
  then show ?case by auto
next
  case (Opt r)
  then show ?case by auto
next
  case (Star a)
  from Star.prems(2) have "rest \<in> set (star_matches ic a (m @ rest))" by simp
  from star_matches_consumed[OF this] have "\<forall>c\<in>set m. atom_ok ic a c" by auto
  with Star.prems(1,3) show ?case
    by (auto dest: atom_nonspace_ok)
qed

lemma matches_starts_nonspace:
  "starts_nonspace r \<Longrightarrow> rest \<in> set (matches ic r (m @ rest)) \<Longrightarrow> m \<noteq> [] \<Longrightarrow> \<not> py_isspace (hd m)"
proof (induction r arbitrary: m rest)
  case Eps
  then show ?case by simp
next
  case (Atom a)
  then show ?case
    by (cases m) (auto split: if_splits dest: atom_nonspace_ok)
next
  case (Seq r1 r2)
  from Seq.prems(2) obtain mid where
    m: "mid \<in> set (matches ic r1 (m @ rest))" "rest \<in> set (matches ic r2 mid)"
    by auto
  from matches_suffix[OF m(2)] obtain m2 where m2: "mid = m2 @ rest" by blast
  from matches_suffix[OF m(1)] obtain m1 where "m @ rest = m1 @ mid" by blast
  with m2 have mm: "m = m1 @ m2" by simp
  show ?case
  proof (cases "m1 = []")
    case True
    with m(1) m2 mm have "nullable r1" by (auto dest: matches_nullable)
    with Seq.prems(1) have e2: "starts_nonspace r2" by simp
    from m(2) m2 True mm have "rest \<in> set (matches ic r2 (m @ rest))" by simp
    from Seq.IH(2)[OF e2 this Seq.prems(3)] show ?thesis .
  next
    case False
    from Seq.prems(1) have e1: "starts_nonspace r1" by simp
    from m(1) m2 mm have "m2 @ rest \<in> set (matches ic r1 (m1 @ m2 @ rest))" by simp
    from Seq.IH(1)[OF e1 this False] False mm show ?thesis by simp
  qed
next
  case (Alt r1 r2)
  then show ?case by auto
next
  case (Opt r)
  then show ?case by auto
next
  case (Star a)
  from Star.prems(2) have "rest \<in> set (star_matches ic a (m @ rest))" by simp
  from star_matches_consumed[OF this] have "\<forall>c\<in>set m. atom_ok ic a c" by auto
  with Star.prems(1,3) show ?case
    by (auto dest: atom_nonspace_ok)
qed

lemma price_patterns_shape:
  "\<not> nullable price_with_period" "ends_nonspace price_with_period" "starts_nonspace price_with_period"
  "\<not> nullable price_bare" "ends_nonspace price_bare" "starts_nonspace price_bare"
  by code_simp+

lemma re_search_stripped:
  assumes "re_search ic r s = Some m" "\<not> nullable r" "ends_nonspace r" "starts_nonspace r"
  shows "py_strip m = m"
proof -
  from re_search_Some[OF assms(1)] obtain pre rest where
    "matches ic r (m @ rest) \<noteq> []" "hd (matches ic r (m @ rest)) = rest"
    by blast
  then have r: "rest \<in> set (matches ic r (m @ rest))"
    by (metis hd_in_set)
  have ne: "m \<noteq> []"
    using r assms(2) matches_nullable[of rest ic r] by auto
  from matches_ends_nonspace[OF assms(3) r ne] matches_starts_nonspace[OF assms(4) r ne] ne
  show ?thesis
    unfolding py_strip_def by (intro strip_with_id)
qed

text \<open>
  Claim C7: the price of a detail page. A match of \<open>text=Free to install\<close> makes the price
  \<open>Free to install\<close> whatever the page's main text holds; otherwise a match of
  \<open>text=Free plan\<close> makes it \<open>Free plan\<close>; otherwise, when the pattern with a billing
  period matches somewhere in the main text, the price is its leftmost match (also when
  a bare \<open>$<number>\<close> stands earlier in the text), and only when it matches nowhere is
  the price the leftmost match of the bare pattern. The final \<open>strip()\<close> changes neither
  match.
\<close>

theorem C7_price_precedence:
  "(free_to_install_count page = Inr n \<and> 0 < n \<longrightarrow>
      extract_price page = Inr ''Free to install'') \<and>
   (free_to_install_count page = Inr 0 \<and> free_plan_count page = Inr n \<and> 0 < n \<longrightarrow>
      extract_price page = Inr ''Free plan'') \<and>
   (free_to_install_count page = Inr 0 \<and> free_plan_count page = Inr 0 \<and>
    main_text page = Inr txt \<and> re_search True price_with_period txt = Some m \<longrightarrow>
      extract_price page = Inr m \<and>
      (\<exists>pre rest. txt = pre @ m @ rest \<and>
         matches True price_with_period (m @ rest) \<noteq> [] \<and>
         hd (matches True price_with_period (m @ rest)) = rest \<and>
         (\<forall>i<length pre. matches True price_with_period (drop i txt) = []))) \<and>
   (free_to_install_count page = Inr 0 \<and> free_plan_count page = Inr 0 \<and>
    main_text page = Inr txt \<and> re_search True price_with_period txt = None \<and>
    re_search True price_bare txt = Some m \<longrightarrow>
      extract_price page = Inr m \<and>
      (\<forall>i\<le>length txt. matches True price_with_period (drop i txt) = []) \<and>
      (\<exists>pre rest. txt = pre @ m @ rest \<and>
         matches True price_bare (m @ rest) \<noteq> [] \<and>
         hd (matches True price_bare (m @ rest)) = rest \<and>
         (\<forall>i<length pre. matches True price_bare (drop i txt) = [])))"
proof (intro conjI impI)
  assume "free_to_install_count page = Inr n \<and> 0 < n"
  then show "extract_price page = Inr ''Free to install''"
    by (simp add: extract_price_def)
next
  assume "free_to_install_count page = Inr 0 \<and> free_plan_count page = Inr n \<and> 0 < n"
  then show "extract_price page = Inr ''Free plan''"
    by (simp add: extract_price_def)
next
  assume a: "free_to_install_count page = Inr 0 \<and> free_plan_count page = Inr 0 \<and>
    main_text page = Inr txt \<and> re_search True price_with_period txt = Some m"
  then have "re_search True price_with_period txt = Some m"
    by simp
  from re_search_stripped[OF this price_patterns_shape(1) price_patterns_shape(2)
      price_patterns_shape(3)]
  have "py_strip m = m" .
  with a show "extract_price page = Inr m"
    by (simp add: extract_price_def)
  from a show "\<exists>pre rest. txt = pre @ m @ rest \<and>
         matches True price_with_period (m @ rest) \<noteq> [] \<and>
         hd (matches True price_with_period (m @ rest)) = rest \<and>
         (\<forall>i<length pre. matches True price_with_period (drop i txt) = [])"
    by (intro re_search_Some) simp
next
  assume a: "free_to_install_count page = Inr 0 \<and> free_plan_count page = Inr 0 \<and>
    main_text page = Inr txt \<and> re_search True price_with_period txt = None \<and>
    re_search True price_bare txt = Some m"
  then have "re_search True price_bare txt = Some m"
    by simp
  from re_search_stripped[OF this price_patterns_shape(4) price_patterns_shape(5)
      price_patterns_shape(6)]
  have "py_strip m = m" .
  with a show "extract_price page = Inr m"
    by (simp add: extract_price_def)
  from a show "\<forall>i\<le>length txt. matches True price_with_period (drop i txt) = []"
    by (auto intro: re_search_None)
  from a show "\<exists>pre rest. txt = pre @ m @ rest \<and>
         matches True price_bare (m @ rest) \<noteq> [] \<and>
         hd (matches True price_bare (m @ rest)) = rest \<and>
         (\<forall>i<length pre. matches True price_bare (drop i txt) = [])"
    by (intro re_search_Some) simp
qed

theorem C7_price_precedence_witness:
  "extract_price (ex_detail_page\<lparr>free_to_install_count := Inr 2\<rparr>) = Inr ''Free to install'' \<and>
   extract_price (ex_detail_page\<lparr>free_plan_count := Inr 1\<rparr>) = Inr ''Free plan'' \<and>
   main_text ex_detail_page = Inr ''Pricing: a one-time $5 setup. From $9.99/month after the trial.'' \<and>
   re_search True price_with_period ''Pricing: a one-time $5 setup. From $9.99/month after the trial.''
     = Some ''From $9.99/month'' \<and>
   extract_price ex_detail_page = Inr ''From $9.99/month'' \<and>
   re_search True price_with_period ''Only $5 today'' = None \<and>
   re_search True price_bare ''Only $5 today'' = Some ''$5'' \<and>
   extract_price (ex_detail_page\<lparr>main_text := Inr ''Only $5 today''\<rparr>) = Inr ''$5''"
proof -
  let ?txt = "''Pricing: a one-time $5 setup. From $9.99/month after the trial.''"
  have c1: "free_to_install_count (ex_detail_page\<lparr>free_to_install_count := Inr 2\<rparr>) = Inr 2 \<and> (0::nat) < 2"
    by simp
  have c2: "free_to_install_count (ex_detail_page\<lparr>free_plan_count := Inr 1\<rparr>) = Inr 0 \<and>
      free_plan_count (ex_detail_page\<lparr>free_plan_count := Inr 1\<rparr>) = Inr 1 \<and> (0::nat) < 1"
    by (simp add: ex_detail_page_def)
  have s3: "re_search True price_with_period ?txt = Some ''From $9.99/month''"
    by code_simp
  have c3: "free_to_install_count ex_detail_page = Inr 0 \<and> free_plan_count ex_detail_page = Inr 0 \<and>
      main_text ex_detail_page = Inr ?txt \<and>
      re_search True price_with_period ?txt = Some ''From $9.99/month''"
    using s3 by (simp add: ex_detail_page_def)
  have s4: "re_search True price_with_period ''Only $5 today'' = None"
    "re_search True price_bare ''Only $5 today'' = Some ''$5''"
    by code_simp+
  have c4: "free_to_install_count (ex_detail_page\<lparr>main_text := Inr ''Only $5 today''\<rparr>) = Inr 0 \<and>
      free_plan_count (ex_detail_page\<lparr>main_text := Inr ''Only $5 today''\<rparr>) = Inr 0 \<and>
      main_text (ex_detail_page\<lparr>main_text := Inr ''Only $5 today''\<rparr>) = Inr ''Only $5 today'' \<and>
      re_search True price_with_period ''Only $5 today'' = None \<and>
      re_search True price_bare ''Only $5 today'' = Some ''$5''"
    using s4 by (simp add: ex_detail_page_def)
  note t1 = C7_price_precedence[of "ex_detail_page\<lparr>free_to_install_count := Inr 2\<rparr>" 2 ?txt "[]"]
  note t2 = C7_price_precedence[of "ex_detail_page\<lparr>free_plan_count := Inr 1\<rparr>" 1 ?txt "[]"]
  note t3 = C7_price_precedence[of ex_detail_page 0 ?txt "''From $9.99/month''"]
  note t4 = C7_price_precedence[of "ex_detail_page\<lparr>main_text := Inr ''Only $5 today''\<rparr>" 0
      "''Only $5 today''" "''$5''"]
  from t1 c1 have r1: "extract_price (ex_detail_page\<lparr>free_to_install_count := Inr 2\<rparr>) = Inr ''Free to install''"
    by blast
  from t2 c2 have r2: "extract_price (ex_detail_page\<lparr>free_plan_count := Inr 1\<rparr>) = Inr ''Free plan''"
    by blast
  from t3 c3 have r3: "extract_price ex_detail_page = Inr ''From $9.99/month''"
    by blast
  from t4 c4 have r4: "extract_price (ex_detail_page\<lparr>main_text := Inr ''Only $5 today''\<rparr>) = Inr ''$5''"
    by blast
  from r1 r2 r3 r4 c3 s3 s4 show ?thesis
    by blast
qed

lemma map_of_dict_set: "map_of (dict_set d k v) = (map_of d)(k \<mapsto> v)"
  by (simp add: dict_set_def update_conv')

lemma dict_get_dict_set:
  "dict_get (dict_set d k v) k' = (if k' = k then v else dict_get d k')"
  by (simp add: dict_get_def map_of_dict_set)

lemma keys_dict_set:
  "map fst (dict_set d k v) = (if k \<in> fst ` set d then map fst d else map fst d @ [k])"
  by (simp add: dict_set_def update_keys)

lemma keys_dict_set_prefix: "prefix (map fst d) (map fst (dict_set d k v))"
  by (simp add: keys_dict_set)

lemma keys_prefix_step:
  "prefix ks (map fst d) \<Longrightarrow> prefix ks (map fst (dict_set d k v))"
  using keys_dict_set_prefix[of d k v] by (rule prefix_order.trans[rotated])

lemma enrich_rows_length: "length (enrich_rows details i rows) = length rows"
  by (induction rows arbitrary: i) auto

lemma enrich_rows_nth:
  "k < length rows \<Longrightarrow>
   enrich_rows details i rows ! k =
     (case enrich_product_row (details (i + k)) (rows ! k) of
        Inr enriched \<Rightarrow> enriched
      | Inl (e, row1) \<Rightarrow> dict_set row1 ''enrich_error'' (PStr (str_error e)))"
proof (induction rows arbitrary: i k)
  case Nil
  then show ?case by simp
next
  case (Cons row rows)
  show ?case
  proof (cases k)
    case 0
    then show ?thesis by simp
  next
    case (Suc j)
    with Cons.prems have "j < length rows" by simp
    from Cons.IH[OF this, of "Suc i"] Suc show ?thesis by simp
  qed
qed

text \<open>
  Claim C5: the rating step raises. Provided the page loads and the description and
  price steps return (they are outside the \<open>try\<close> blocks), \<open>enrich_product_row\<close> returns
  the row it was given: every key it had keeps its place, and no field but the eight
  the function assigns on this path is touched. The developer fields, the description
  and the price hold what their own steps gave, rating and review count are \<open>None\<close>, and
  \<open>reviews_scrape_error\<close> holds the \<open>repr\<close> of the exception. When instead the rating
  step returns without data, the function never sets \<open>reviews_scrape_error\<close>, so the
  marker tells the two cases apart. The record is not discarded: when the row is the
  \<open>k\<close>-th of a category's listing and the page is the detail page it leads to, the
  category scrape returns one record for every listed row, and its \<open>k\<close>-th record is
  this one.
\<close>

theorem C5_partial_enrichment_kept:
  assumes "map_of row ''products_url'' = Some url"
    and "goto_error page = None"
    and "rating_and_reviews page = Inl e"
    and "extract_description page = Inr d"
    and "extract_price page = Inr p"
  shows "\<exists>row'. enrich_product_row page row = Inr row' \<and>
           prefix (map fst row) (map fst row') \<and>
           (\<forall>k. k \<notin> {''developer_name'', ''developer_website'', ''rating'', ''reviews_count'',
                      ''reviews_source'', ''reviews_scrape_error'', ''Product_description'', ''Price''}
                \<longrightarrow> map_of row' k = map_of row k) \<and>
           map_of row' ''reviews_scrape_error'' = Some (PStr (repr_error e)) \<and>
           map_of row' ''rating'' = Some PNone \<and>
           map_of row' ''reviews_count'' = Some PNone \<and>
           map_of row' ''reviews_source'' = Some (PStr ''shopify_app_store'') \<and>
           map_of row' ''developer_name''
             = Some (case developer_info page of Inr (dn, dw) \<Rightarrow> dn | Inl x \<Rightarrow> PNone) \<and>
           map_of row' ''developer_website''
             = Some (case developer_info page of Inr (dn, dw) \<Rightarrow> dw | Inl x \<Rightarrow> PNone) \<and>
           map_of row' ''Product_description'' = Some (PStr d) \<and>
           map_of row' ''Price'' = Some (PStr p) \<and>
           (\<forall>page2 row2. rating_and_reviews page2 = Inr (PNone, PNone) \<and>
              enrich_product_row page2 row = Inr row2 \<longrightarrow>
              map_of row2 ''reviews_scrape_error'' = map_of row ''reviews_scrape_error'') \<and>
           (extract_products_from_category listing cat limit = Inr rows \<and> k < length rows \<and>
            rows ! k = row \<and> details k = page \<longrightarrow>
              (\<exists>out. scrape_shopify_category listing details cat limit = Inr out \<and>
                     length out = length rows \<and> out ! k = row'))"
proof -
  let ?row' = "dict_set (dict_set (set_reviews page (set_developer page row))
      ''Product_description'' (PStr d)) ''Price'' (PStr p)"
  have r: "enrich_product_row page row = Inr ?row'"
    using assms by (simp add: enrich_product_row_def Let_def)
  have pre: "prefix (map fst row) (map fst ?row')"
    by (auto simp: set_developer_def set_reviews_def split: sum.splits intro!: keys_prefix_step)
  have m: "map_of ?row' = (map_of row)
      (''developer_name'' \<mapsto> (case developer_info page of Inr (dn, dw) \<Rightarrow> dn | Inl x \<Rightarrow> PNone),
       ''developer_website'' \<mapsto> (case developer_info page of Inr (dn, dw) \<Rightarrow> dw | Inl x \<Rightarrow> PNone),
       ''rating'' \<mapsto> PNone, ''reviews_count'' \<mapsto> PNone,
       ''reviews_source'' \<mapsto> PStr ''shopify_app_store'',
       ''reviews_scrape_error'' \<mapsto> PStr (repr_error e),
       ''Product_description'' \<mapsto> PStr d, ''Price'' \<mapsto> PStr p)"
    using assms(3)
    by (simp add: map_of_dict_set set_reviews_def set_developer_def split: sum.splits prod.splits)
  have nodata: "map_of row2 ''reviews_scrape_error'' = map_of row ''reviews_scrape_error''"
    if "rating_and_reviews page2 = Inr (PNone, PNone)" "enrich_product_row page2 row = Inr row2"
    for page2 row2
    using that
    by (auto simp: enrich_product_row_def Let_def map_of_dict_set set_reviews_def set_developer_def
        split: option.splits sum.splits prod.splits)
  then have nd: "\<forall>page2 row2. rating_and_reviews page2 = Inr (PNone, PNone) \<and>
      enrich_product_row page2 row = Inr row2 \<longrightarrow>
      map_of row2 ''reviews_scrape_error'' = map_of row ''reviews_scrape_error''"
    by blast
  have v0: "\<forall>k. k \<notin> {''developer_name'', ''developer_website'', ''rating'', ''reviews_count'',
                      ''reviews_source'', ''reviews_scrape_error'', ''Product_description'', ''Price''}
                \<longrightarrow> map_of ?row' k = map_of row k"
    unfolding m by simp
  have v1: "map_of ?row' ''reviews_scrape_error'' = Some (PStr (repr_error e))"
    unfolding m by simp
  have v2: "map_of ?row' ''rating'' = Some PNone"
    unfolding m by simp
  have v3: "map_of ?row' ''reviews_count'' = Some PNone"
    unfolding m by simp
  have v4: "map_of ?row' ''reviews_source'' = Some (PStr ''shopify_app_store'')"
    unfolding m by simp
  have v5: "map_of ?row' ''developer_name''
             = Some (case developer_info page of Inr (dn, dw) \<Rightarrow> dn | Inl x \<Rightarrow> PNone)"
    unfolding m by simp
  have v6: "map_of ?row' ''developer_website''
             = Some (case developer_info page of Inr (dn, dw) \<Rightarrow> dw | Inl x \<Rightarrow> PNone)"
    unfolding m by simp
  have v7: "map_of ?row' ''Product_description'' = Some (PStr d)"
    unfolding m by simp
  have v8: "map_of ?row' ''Price'' = Some (PStr p)"
    unfolding m by simp
  have sc: "extract_products_from_category listing cat limit = Inr rows \<and> k < length rows \<and>
            rows ! k = row \<and> details k = page \<longrightarrow>
              (\<exists>out. scrape_shopify_category listing details cat limit = Inr out \<and>
                     length out = length rows \<and> out ! k = ?row')"
  proof
    assume a: "extract_products_from_category listing cat limit = Inr rows \<and> k < length rows \<and>
            rows ! k = row \<and> details k = page"
    then have s: "scrape_shopify_category listing details cat limit = Inr (enrich_rows details 0 rows)"
      by (simp add: scrape_shopify_category_def)
    from a have "enrich_rows details 0 rows ! k = ?row'"
      using enrich_rows_nth[of k rows details 0] r by simp
    with s show "\<exists>out. scrape_shopify_category listing details cat limit = Inr out \<and>
                     length out = length rows \<and> out ! k = ?row'"
      by (simp add: enrich_rows_length)
  qed
  show ?thesis
    by (intro exI[of _ ?row'] conjI r pre v0 v1 v2 v3 v4 v5 v6 v7 v8 nd sc)
qed

theorem C5_partial_enrichment_kept_witness:
  "enrich_product_row ex_detail_page ex_row = Inr ex_row_enriched \<and>
   prefix (map fst ex_row) (map fst ex_row_enriched) \<and>
   map_of ex_row_enriched ''reviews_scrape_error'' = Some (PStr ''MemoryError()'') \<and>
   map_of ex_row_enriched ''Price'' = Some (PStr ''From $9.99/month'') \<and>
   map_of ex_row_enriched ''Product_description'' = Some (PStr ''Sell more with App X.'') \<and>
   map_of ex_row_enriched ''developer_name'' = Some (PStr ''Acme Apps'') \<and>
   map_of (projr (enrich_product_row (ex_detail_page\<lparr>rating_and_reviews := Inr (PNone, PNone)\<rparr>) ex_row))
     ''reviews_scrape_error'' = None \<and>
   extract_products_from_category ex_listing_page ex_marketing 1 = Inr [ex_row] \<and>
   scrape_shopify_category ex_listing_page (\<lambda>i. ex_detail_page) ex_marketing 1 = Inr [ex_row_enriched]"
proof -
  have h1: "map_of ex_row ''products_url'' = Some (PStr ''https://apps.shopify.com/app-x'')"
    by code_simp
  have h2: "goto_error ex_detail_page = None"
    by (simp add: ex_detail_page_def)
  have h3: "rating_and_reviews ex_detail_page = Inl (Exception ''MemoryError'' [])"
    by (simp add: ex_detail_page_def)
  have h4: "extract_description ex_detail_page = Inr ''Sell more with App X.''"
    by code_simp
  have h5: "extract_price ex_detail_page = Inr ''From $9.99/month''"
    by code_simp
  have ev: "enrich_product_row ex_detail_page ex_row = Inr ex_row_enriched"
    by code_simp
  have dn: "developer_info ex_detail_page = Inr (PStr ''Acme Apps'', PStr ''https://acme.example'')"
    by (simp add: ex_detail_page_def)
  have nd: "map_of (projr (enrich_product_row
      (ex_detail_page\<lparr>rating_and_reviews := Inr (PNone, PNone)\<rparr>) ex_row)) ''reviews_scrape_error'' = None"
    by code_simp
  have rp: "repr_error (Exception ''MemoryError'' []) = ''MemoryError()''"
    by code_simp
  have ls: "extract_products_from_category ex_listing_page ex_marketing 1 = Inr [ex_row]"
    by code_simp
  have lk: "extract_products_from_category ex_listing_page ex_marketing 1 = Inr [ex_row] \<and>
      0 < length [ex_row] \<and> [ex_row] ! 0 = ex_row \<and> ex_detail_page = ex_detail_page"
    using ls by simp
  note t = C5_partial_enrichment_kept[OF h1 h2 h3 h4 h5,
      of ex_listing_page ex_marketing 1 "[ex_row]" 0 "\<lambda>i. ex_detail_page"]
  from t show ?thesis
  proof (elim exE conjE)
    fix row'
    assume r: "enrich_product_row ex_detail_page ex_row = Inr row'"
      and p: "prefix (map fst ex_row) (map fst row')"
      and e: "map_of row' ''reviews_scrape_error'' = Some (PStr (repr_error (Exception ''MemoryError'' [])))"
      and d: "map_of row' ''developer_name''
             = Some (case developer_info ex_detail_page of Inr (dn, dw) \<Rightarrow> dn | Inl x \<Rightarrow> PNone)"
      and v1: "map_of row' ''Product_description'' = Some (PStr ''Sell more with App X.'')"
      and v2: "map_of row' ''Price'' = Some (PStr ''From $9.99/month'')"
      and sc: "extract_products_from_category ex_listing_page ex_marketing 1 = Inr [ex_row] \<and>
        0 < length [ex_row] \<and> [ex_row] ! 0 = ex_row \<and> ex_detail_page = ex_detail_page \<longrightarrow>
          (\<exists>out. scrape_shopify_category ex_listing_page (\<lambda>i. ex_detail_page) ex_marketing 1 = Inr out \<and>
                 length out = length [ex_row] \<and> out ! 0 = row')"
    from r ev have eq: "row' = ex_row_enriched"
      by simp
    from mp[OF sc lk] obtain out where
      o: "scrape_shopify_category ex_listing_page (\<lambda>i. ex_detail_page) ex_marketing 1 = Inr out"
        "length out = length [ex_row]" "out ! 0 = row'"
      by (elim exE conjE)
    from o(2) have "out = [out ! 0]"
      by (cases out) simp_all
    with o(1,3) eq have s: "scrape_shopify_category ex_listing_page (\<lambda>i. ex_detail_page) ex_marketing 1
        = Inr [ex_row_enriched]"
      by simp
    from p e v1 v2 d have
      "prefix (map fst ex_row) (map fst ex_row_enriched)"
      "map_of ex_row_enriched ''reviews_scrape_error'' = Some (PStr ''MemoryError()'')"
      "map_of ex_row_enriched ''Price'' = Some (PStr ''From $9.99/month'')"
      "map_of ex_row_enriched ''Product_description'' = Some (PStr ''Sell more with App X.'')"
      "map_of ex_row_enriched ''developer_name'' = Some (PStr ''Acme Apps'')"
      unfolding eq rp dn by simp_all
    with ev nd ls s show ?thesis
      by (intro conjI)
  qed
qed

section \<open>Properties of the run on scraped records\<close>

lemma enrich_product_row_url:
  "enrich_product_row page row = Inr row' \<Longrightarrow>
     dict_get row' ''products_url'' = dict_get row ''products_url''"
  "enrich_product_row page row = Inl (e, row') \<Longrightarrow>
     dict_get row' ''products_url'' = dict_get row ''products_url''"
  by (auto simp: enrich_product_row_def Let_def set_developer_def set_reviews_def
      dict_get_dict_set split: option.splits sum.splits prod.splits)

lemma url_of_products_url:
  assumes "dict_get r ''products_url'' = PStr u" and "u \<noteq> []"
  shows "url_of r = py_strip u"
  using assms by (simp add: url_of_def record_url_def py_or_def)

text \<open>
  Every record a category scrape returns carries the canonical URL of one of the
  category's links in \<open>products_url\<close>: the listing extractor puts it there and the
  enrichment never assigns that key. Such a URL is not empty and \<open>strip()\<close> leaves it as
  it is, so it is the URL the run's loop deduplicates by.
\<close>

lemma scrape_record_url:
  assumes "scrape_shopify_category listing details cat limit = Inr out" and "r \<in> set out"
  shows "\<exists>href u. canonical_url href = Some u \<and> dict_get r ''products_url'' = PStr u \<and>
           url_of r = u \<and> u \<noteq> []"
proof -
  from assms(1) obtain rows where
    rows: "extract_products_from_category listing cat limit = Inr rows"
    and out: "out = enrich_rows details 0 rows"
    by (auto simp: scrape_shopify_category_def split: sum.splits)
  from assms(2) obtain k where k: "k < length rows" and r: "r = enrich_rows details 0 rows ! k"
    unfolding out by (auto simp: in_set_conv_nth enrich_rows_length)
  from extract_products_rows[OF rows nth_mem[OF k]] obtain name href u where
    c: "canonical_url href = Some u" and m: "rows ! k = make_row cat name u"
    by blast
  have "dict_get r ''products_url'' = dict_get (rows ! k) ''products_url''"
  proof (cases "enrich_product_row (details k) (rows ! k)")
    case (Inr row')
    with enrich_rows_nth[OF k, of details 0] r enrich_product_row_url(1)[OF Inr] show ?thesis
      by simp
  next
    case (Inl x)
    obtain e row' where x: "x = (e, row')"
      by (cases x)
    with Inl enrich_rows_nth[OF k, of details 0] r
    have "r = dict_set row' ''enrich_error'' (PStr (str_error e))"
      by simp
    moreover from Inl x have "dict_get row' ''products_url'' = dict_get (rows ! k) ''products_url''"
      by (intro enrich_product_row_url(2)) simp
    ultimately show ?thesis
      by (simp add: dict_get_dict_set)
  qed
  then have g: "dict_get r ''products_url'' = PStr u"
    by (simp add: m dict_get_make_row_url)
  from canonical_url_stripped[OF c] have u: "u \<noteq> []" "py_strip u = u"
    by simp_all
  from url_of_products_url[OF g u(1)] u(2) have "url_of r = u"
    by simp
  with c g u(1) show ?thesis
    by blast
qed

lemma first_seen_set: "set (first_seen S rs) \<subseteq> set rs"
  by (induction rs arbitrary: S) auto

lemma fed_scraped_url:
  assumes "r \<in> set (fed_records (scraped n sites))"
  shows "\<exists>href u. canonical_url href = Some u \<and> dict_get r ''products_url'' = PStr u \<and>
           url_of r = u \<and> u \<noteq> []"
proof -
  from assms obtain s out where "s \<in> set sites"
    and "Inr out = scrape_shopify_category (site_listing s) (site_details s) (site_category s) n"
    and "r \<in> set out"
    by (auto simp: fed_records_def scraped_def split: sum.splits)
  then show ?thesis
    by (intro scrape_record_url[OF sym])
qed

text \<open>
  Claim C1. The records the aggregation loop is fed are those the category scrapes
  return, and each of them carries a canonical item URL, which is not empty. When the
  category loop of a run ends in state \<open>st\<close>, no two records of \<open>all_results_for_files\<close>
  share their URL; the URLs kept are the URLs fed; for the URL of any record fed, the
  record of \<open>all_results_for_files\<close> with that URL is the first record with that URL
  that was fed; and \<open>skipped_dupes\<close> is the number of records fed minus the number of
  distinct URLs among them.
\<close>

theorem C1_dedup_by_canonical_url:
  assumes "category_loop cfg initial_state (scraped n sites) = Inr st"
  shows "distinct (map url_of (all_results_for_files st)) \<and>
         url_of ` set (all_results_for_files st) = url_of ` set (fed_records (scraped n sites)) \<and>
         (\<forall>r\<in>set (fed_records (scraped n sites)).
            (\<exists>href u. canonical_url href = Some u \<and> dict_get r ''products_url'' = PStr u \<and>
                      url_of r = u) \<and>
            find (\<lambda>x. url_of x = url_of r) (all_results_for_files st)
              = find (\<lambda>x. url_of x = url_of r) (fed_records (scraped n sites))) \<and>
         skipped_dupes st
           = length (fed_records (scraped n sites))
               - card (url_of ` set (fed_records (scraped n sites)))"
proof -
  let ?rs = "fed_records (scraped n sites)"
  from category_loop_first_seen[OF assms]
  have all: "all_results_for_files st = first_seen {} ?rs"
    and sk: "skipped_dupes st + length (first_seen {} ?rs) = length ?rs"
    by (simp_all add: initial_state_def)
  have ne: "url_of r \<noteq> []" if "r \<in> set ?rs" for r
    using fed_scraped_url[OF that] by auto
  have sub: "set (first_seen {} ?rs) \<subseteq> set ?rs"
    by (rule first_seen_set)
  have fnd: "find (\<lambda>x. url_of x = url_of r) (first_seen {} ?rs) = find (\<lambda>x. url_of x = url_of r) ?rs"
    if "r \<in> set ?rs" for r
    using ne[OF that] by (intro first_seen_find) simp_all
  have "filter (\<lambda>u. u \<noteq> []) (map url_of (first_seen {} ?rs)) = map url_of (first_seen {} ?rs)"
    using sub ne by (intro filter_True) auto
  with first_seen_distinct[of "{}" ?rs] have d: "distinct (map url_of (first_seen {} ?rs))"
    by simp
  have img: "url_of ` set (first_seen {} ?rs) = url_of ` set ?rs"
  proof
    show "url_of ` set (first_seen {} ?rs) \<subseteq> url_of ` set ?rs"
      using sub by auto
    show "url_of ` set ?rs \<subseteq> url_of ` set (first_seen {} ?rs)"
    proof
      fix u assume "u \<in> url_of ` set ?rs"
      then obtain r where r: "r \<in> set ?rs" "u = url_of r"
        by auto
      then have "find (\<lambda>x. url_of x = url_of r) ?rs \<noteq> None"
        by (auto simp: find_None_iff)
      with fnd[OF r(1)] obtain r0 where
        "find (\<lambda>x. url_of x = url_of r) (first_seen {} ?rs) = Some r0"
        by auto
      then have "r0 \<in> set (first_seen {} ?rs)" "url_of r0 = url_of r"
        by (auto simp: find_Some_iff)
      with r(2) have "r0 \<in> set (first_seen {} ?rs)" "u = url_of r0"
        by simp_all
      then show "u \<in> url_of ` set (first_seen {} ?rs)"
        by (simp only: image_eqI)
    qed
  qed
  have "filter (\<lambda>r. url_of r = []) ?rs = []"
    using ne by (auto simp: filter_empty_conv)
  moreover have "url_of ` set ?rs - {[]} - {} = url_of ` set ?rs"
    using ne by auto
  ultimately have "length (first_seen {} ?rs) = card (url_of ` set ?rs)"
    using first_seen_length[of "{}" ?rs] by simp
  with sk have s: "skipped_dupes st = length ?rs - card (url_of ` set ?rs)"
    by arith
  have f: "\<forall>r\<in>set ?rs.
      (\<exists>href u. canonical_url href = Some u \<and> dict_get r ''products_url'' = PStr u \<and> url_of r = u) \<and>
      find (\<lambda>x. url_of x = url_of r) (first_seen {} ?rs) = find (\<lambda>x. url_of x = url_of r) ?rs"
  proof
    fix r assume r: "r \<in> set ?rs"
    from fed_scraped_url[OF r] have
      "\<exists>href u. canonical_url href = Some u \<and> dict_get r ''products_url'' = PStr u \<and> url_of r = u"
      by blast
    from this fnd[OF r] show "(\<exists>href u. canonical_url href = Some u \<and>
        dict_get r ''products_url'' = PStr u \<and> url_of r = u) \<and>
      find (\<lambda>x. url_of x = url_of r) (first_seen {} ?rs) = find (\<lambda>x. url_of x = url_of r) ?rs"
      by (rule conjI)
  qed
  show ?thesis
    unfolding all by (intro conjI d img f s)
qed

theorem C1_dedup_by_canonical_url_witness:
  "category_loop ex_cfg initial_state (scraped 30 ex_sites) = Inr ex_sites_final \<and>
   map url_of (fed_records (scraped 30 ex_sites))
     = [''https://apps.shopify.com/app-x'', ''https://apps.shopify.com/app-y'',
        ''https://apps.shopify.com/app-x'', ''https://apps.shopify.com/app-z''] \<and>
   map url_of (all_results_for_files ex_sites_final)
     = [''https://apps.shopify.com/app-x'', ''https://apps.shopify.com/app-y'',
        ''https://apps.shopify.com/app-z''] \<and>
   distinct (map url_of (all_results_for_files ex_sites_final)) \<and>
   skipped_dupes ex_sites_final
     = length (fed_records (scraped 30 ex_sites))
         - card (url_of ` set (fed_records (scraped 30 ex_sites))) \<and>
   skipped_dupes ex_sites_final = 1"
proof -
  have ev: "(case category_loop ex_cfg initial_state (scraped 30 ex_sites) of
              Inl e \<Rightarrow> None
            | Inr st \<Rightarrow> Some (map url_of (all_results_for_files st), skipped_dupes st))
      = Some ([''https://apps.shopify.com/app-x'', ''https://apps.shopify.com/app-y'',
               ''https://apps.shopify.com/app-z''], 1)"
    by code_simp
  then obtain st where run0: "category_loop ex_cfg initial_state (scraped 30 ex_sites) = Inr st"
    by (cases "category_loop ex_cfg initial_state (scraped 30 ex_sites)") simp_all
  then have run: "category_loop ex_cfg initial_state (scraped 30 ex_sites) = Inr ex_sites_final"
    by (simp add: ex_sites_final_def)
  from ev run have kept: "map url_of (all_results_for_files ex_sites_final)
      = [''https://apps.shopify.com/app-x'', ''https://apps.shopify.com/app-y'',
         ''https://apps.shopify.com/app-z'']"
    and one: "skipped_dupes ex_sites_final = 1"
    by simp_all
  have fed: "map url_of (fed_records (scraped 30 ex_sites))
      = [''https://apps.shopify.com/app-x'', ''https://apps.shopify.com/app-y'',
         ''https://apps.shopify.com/app-x'', ''https://apps.shopify.com/app-z'']"
    by code_simp
  note t = C1_dedup_by_canonical_url[OF run]
  from t have d: "distinct (map url_of (all_results_for_files ex_sites_final))"
    by (rule conjunct1)
  from t have s: "skipped_dupes ex_sites_final
      = length (fed_records (scraped 30 ex_sites))
          - card (url_of ` set (fed_records (scraped 30 ex_sites)))"
    by (elim conjE)
  show ?thesis
    by (intro conjI run fed kept d s one)
qed

section \<open>Properties of the review harvester\<close>

lemma jsonld_loop_bounded:
  "int (length reviews) < max_reviews \<Longrightarrow>
     (case jsonld_loop app max_reviews (seen, reviews) rs of
        Return out \<Rightarrow> int (length out) \<le> max_reviews
      | Go (seen', reviews') \<Rightarrow> int (length reviews') < max_reviews)"
proof (induction rs arbitrary: seen reviews)
  case Nil
  then show ?case by simp
next
  case (Cons r rs)
  show ?case
  proof (cases "jsonld_key r")
    case None
    with Cons.prems show ?thesis by simp
  next
    case (Some key)
    show ?thesis
    proof (cases "key = [] \<or> key \<in> seen")
      case True
      with Some Cons.IH[OF Cons.prems, of seen] show ?thesis by simp
    next
      case False
      let ?r1 = "reviews @ [review_record app
                     (dict_get_default r ''review_title'' (PStr []))
                     (dict_get_default r ''review_text'' (PStr []))
                     (dict_get_default r ''review_date'' (PStr []))
                     (dict_get_default r ''reviewer'' (PStr []))
                     (dict_get_default r ''rating'' (PStr []))
                     (dict_get_default r ''source'' (PStr ''jsonld''))]"
      show ?thesis
      proof (cases "int (length ?r1) \<ge> max_reviews")
        case True
        with Some False Cons.prems show ?thesis by (simp add: Let_def)
      next
        case lt: False
        then have "int (length ?r1) < max_reviews" by simp
        from Cons.IH[OF this, of "insert key seen"] Some False lt show ?thesis
          by (simp add: Let_def)
      qed
    qed
  qed
qed

lemma card_loop_bounded:
  "int (length reviews) < max_reviews \<Longrightarrow>
     (case card_loop page app max_reviews budget (ticks, seen, reviews) cards of
        Return out \<Rightarrow> int (length out) \<le> max_reviews
      | Go (ticks', seen', reviews') \<Rightarrow> int (length reviews') < max_reviews)"
proof (induction cards arbitrary: ticks seen reviews)
  case Nil
  then show ?case by simp
next
  case (Cons c cards)
  let ?body = "safe_text (card_p c) []"
  let ?key = "dom_key (safe_text (card_heading c) []) ?body"
  let ?r1 = "reviews @ [review_record app (PStr (safe_text (card_heading c) [])) (PStr ?body)
      (PStr (safe_text (card_time c) [])) (PStr (safe_text (card_reviewer c) []))
      (PStr (card_rating c)) (PStr ''dom'')]"
  show ?case
  proof (cases "clock page ticks - clock page 0 > budget")
    case True
    with Cons.prems show ?thesis by simp
  next
    case nt: False
    show ?thesis
    proof (cases "length ?body < 40 \<or> ?key = [] \<or> ?key \<in> seen")
      case True
      with nt Cons.IH[OF Cons.prems, of "Suc ticks" seen] show ?thesis
        by (auto simp: Let_def)
    next
      case False
      show ?thesis
      proof (cases "int (length ?r1) \<ge> max_reviews")
        case True
        with nt False Cons.prems show ?thesis by (simp add: Let_def)
      next
        case lt: False
        then have "int (length ?r1) < max_reviews" by simp
        from Cons.IH[OF this, of "Suc ticks" "insert ?key seen"] nt False lt show ?thesis
          by (simp add: Let_def)
      qed
    qed
  qed
qed

lemma page_loop_bounded:
  "int (length reviews) < max_reviews \<Longrightarrow>
     int (length (page_loop page app max_reviews budget pidx remaining (ticks, seen, reviews)))
       \<le> max_reviews"
proof (induction remaining arbitrary: pidx ticks seen reviews)
  case 0
  then show ?case by simp
next
  case (Suc remaining)
  show ?case
  proof (cases "view_cards (dom_views page pidx)")
    case (Inl e)
    with Suc.prems show ?thesis by (simp add: Let_def)
  next
    case (Inr all_cards)
    show ?thesis
    proof (cases "card_loop page app max_reviews budget (Suc ticks, seen, reviews) (take 120 all_cards)")
      case (Return out)
      with card_loop_bounded[OF Suc.prems, of page app budget "Suc ticks" seen "take 120 all_cards"]
        Inr Suc.prems show ?thesis
        by (simp add: Let_def)
    next
      case (Go st)
      obtain ticks1 seen1 reviews1 where st: "st = (ticks1, seen1, reviews1)"
        by (cases st)
      from card_loop_bounded[OF Suc.prems, of page app budget "Suc ticks" seen "take 120 all_cards"]
        Go st have lt: "int (length reviews1) < max_reviews"
        by simp
      note ih = Suc.IH[OF lt, of "Suc pidx" ticks1 seen1]
      from Inr Go st lt ih Suc.prems show ?thesis
        by (simp add: Let_def split: sum.splits)
    qed
  qed
qed

text \<open>
  With \<open>max_reviews\<close> at least 1 the harvester returns at most \<open>max_reviews\<close> entries.
\<close>

lemma extract_shopify_reviews_bounded:
  assumes "1 \<le> max_reviews"
  shows "int (length (snd (extract_shopify_reviews page app max_reviews max_pages budget)))
           \<le> max_reviews"
proof -
  have z: "int (length ([] :: pydict list)) < max_reviews"
    using assms by simp
  have j: "\<And>app2 rs. case jsonld_loop app2 max_reviews ({}, []) rs of
        Return out \<Rightarrow> int (length out) \<le> max_reviews
      | Go (seen', reviews') \<Rightarrow> int (length reviews') < max_reviews"
    using jsonld_loop_bounded[OF z] by blast
  show ?thesis
  proof (cases "\<exists>app2 rs seen reviews.
      jsonld_loop app2 max_reviews ({}, []) rs = Go (seen, reviews) \<and>
      snd (extract_shopify_reviews page app max_reviews max_pages budget)
        = page_loop page app2 max_reviews budget 0 (nat max_pages) (1, seen, reviews)")
    case True
    then obtain app2 rs seen reviews where
      g: "jsonld_loop app2 max_reviews ({}, []) rs = Go (seen, reviews)" and
      e: "snd (extract_shopify_reviews page app max_reviews max_pages budget)
            = page_loop page app2 max_reviews budget 0 (nat max_pages) (1, seen, reviews)"
      by blast
    from j[of app2 rs] g have "int (length reviews) < max_reviews"
      by simp
    from page_loop_bounded[OF this] e show ?thesis
      by simp
  next
    case False
    then show ?thesis
      using j assms
      by (auto simp: extract_shopify_reviews_def split: option.splits sum.splits flow.splits)
         (metis (mono_tags, lifting) flow.simps(5,6) old.prod.case order_less_imp_le)+
  qed
qed
text \<open>
  The deadline is tested before every card and before every page iteration: a test that
  finds the budget exceeded ends the card loop without a new entry, and the page loop
  with the reviews gathered so far.
\<close>

lemma card_loop_deadline:
  "clock page ticks - clock page 0 > budget \<Longrightarrow>
     \<exists>t. card_loop page app max_reviews budget (ticks, seen, reviews) cards = Go (t, seen, reviews)"
  by (cases cards) auto

lemma page_loop_deadline:
  "clock page ticks - clock page 0 > budget \<Longrightarrow>
     page_loop page app max_reviews budget pidx remaining (ticks, seen, reviews) = reviews"
  by (cases remaining) auto

text \<open>
  Claim C4 fails at \<open>max_reviews = 0\<close>: \<open>len(reviews) >= max_reviews\<close> is tested only after a
  review has been appended, so the harvester returns one entry where the claim allows
  none. (The bound holds for every \<open>max_reviews\<close> of at least 1, see
  \<open>extract_shopify_reviews_bounded\<close>.)
\<close>

theorem C4_max_reviews_zero_returns_one_entry:
  "length (snd (extract_shopify_reviews (ex_app_page ex_body_long) ex_app 0 3 25)) = 1 \<and>
   map (\<lambda>r. dict_get r ''source'')
     (snd (extract_shopify_reviews (ex_app_page ex_body_long) ex_app 0 3 25)) = [PStr ''jsonld'']"
  by code_simp

text \<open>
  Claim C3 fails on a review whose body is longer than 80 characters: the JSON-LD pass
  keys it by title and the first 80 characters of the body (line 126), the DOM pass by
  title and the first 90 (line 203), the two keys differ, and the harvester returns the
  review twice, once from each pass. A review with a body of at most 80 characters is
  returned once, from the JSON-LD pass.
\<close>

theorem C3_same_review_returned_twice:
  "map (\<lambda>r. (dict_get r ''review_title'', dict_get r ''review_text'', dict_get r ''source''))
     (snd (extract_shopify_reviews (ex_app_page ex_body_long) ex_app 20 3 25))
     = [(PStr ''Great app'', PStr ex_body_long, PStr ''jsonld''),
        (PStr ''Great app'', PStr ex_body_long, PStr ''dom'')] \<and>
   length ex_body_long = 95 \<and>
   map (\<lambda>r. (dict_get r ''review_title'', dict_get r ''review_text'', dict_get r ''source''))
     (snd (extract_shopify_reviews (ex_app_page ex_body_short) ex_app 20 3 25))
     = [(PStr ''Great app'', PStr ex_body_short, PStr ''jsonld'')] \<and>
   length ex_body_short = 58"
  by code_simp

lemma fill_price_frame:
  assumes "fill_price page app = Inr app1"
  shows "(\<forall>k. k \<noteq> ''price'' \<longrightarrow> map_of app1 k = map_of app k) \<and>
         (truthy (dict_get app ''price'') \<longrightarrow> app1 = app) \<and>
         prefix (map fst app) (map fst app1)"
  using assms
  by (auto simp: fill_price_def map_of_dict_set keys_dict_set_prefix split: if_splits sum.splits)

lemma fill_name_frame:
  assumes "fill_name page app = Inr app1"
  shows "(\<forall>k. k \<noteq> ''app_name'' \<longrightarrow> map_of app1 k = map_of app k) \<and>
         (truthy (dict_get app ''app_name'') \<and>
            (\<forall>s. dict_get app ''app_name'' = PStr s \<longrightarrow> py_strip s \<noteq> []) \<longrightarrow> app1 = app) \<and>
         prefix (map fst app) (map fst app1)"
proof -
  have "app1 = app \<or> app1 = dict_set app ''app_name'' (unknown_app_name page)"
    using assms by (auto simp: fill_name_def Let_def split: if_splits sum.splits)
  moreover have "app1 = app"
    if "truthy (dict_get app ''app_name'')"
       "\<forall>s. dict_get app ''app_name'' = PStr s \<longrightarrow> py_strip s \<noteq> []"
    using assms that
    by (cases "dict_get app ''app_name''")
       (auto simp: fill_name_def Let_def split: if_splits sum.splits)
  ultimately show ?thesis
    by (auto simp: map_of_dict_set keys_dict_set_prefix)
qed

lemma extract_shopify_reviews_record:
  "fst (extract_shopify_reviews page app max_reviews max_pages budget) = app \<or>
   (\<exists>app1. fill_price page app = Inr app1 \<and>
      (fst (extract_shopify_reviews page app max_reviews max_pages budget) = app1 \<or>
       (\<exists>app2. fill_name page app1 = Inr app2 \<and>
          fst (extract_shopify_reviews page app max_reviews max_pages budget) = app2)))"
  by (auto simp: extract_shopify_reviews_def split: option.splits sum.splits flow.splits)

text \<open>
  Claim C9, as the code has it. The harvester leaves the price of the shared record
  alone when it holds a true value (a non-empty string), and the name when it holds a
  true value that is not a blank string: a name that is empty, missing or made of white
  space only is replaced by the page's heading. No other field is changed and no key
  moves.
\<close>

theorem C9_backfill_frame:
  "(truthy (dict_get app ''price'') \<longrightarrow>
      map_of (fst (extract_shopify_reviews page app max_reviews max_pages budget)) ''price''
        = map_of app ''price'') \<and>
   (truthy (dict_get app ''app_name'') \<and>
      (\<forall>s. dict_get app ''app_name'' = PStr s \<longrightarrow> py_strip s \<noteq> []) \<longrightarrow>
      map_of (fst (extract_shopify_reviews page app max_reviews max_pages budget)) ''app_name''
        = map_of app ''app_name'') \<and>
   (\<forall>k. k \<noteq> ''price'' \<and> k \<noteq> ''app_name'' \<longrightarrow>
      map_of (fst (extract_shopify_reviews page app max_reviews max_pages budget)) k
        = map_of app k) \<and>
   prefix (map fst app) (map fst (fst (extract_shopify_reviews page app max_reviews max_pages budget)))"
proof -
  let ?app' = "fst (extract_shopify_reviews page app max_reviews max_pages budget)"
  consider (same) "?app' = app"
    | (price) app1 where "fill_price page app = Inr app1" "?app' = app1"
    | (name) app1 app2 where "fill_price page app = Inr app1" "fill_name page app1 = Inr app2"
        "?app' = app2"
    using extract_shopify_reviews_record[of page app max_reviews max_pages budget] by blast
  then show ?thesis
  proof cases
    case same
    then show ?thesis by simp
  next
    case price
    from fill_price_frame[OF price(1)] show ?thesis
      unfolding price(2) by auto
  next
    case name
    note p = fill_price_frame[OF name(1)]
    note n = fill_name_frame[OF name(2)]
    have nm: "dict_get app1 ''app_name'' = dict_get app ''app_name''"
      using p by (simp add: dict_get_def)
    have "truthy (dict_get app ''price'') \<longrightarrow> map_of app2 ''price'' = map_of app ''price''"
      using p n by auto
    moreover have "truthy (dict_get app ''app_name'') \<and>
        (\<forall>s. dict_get app ''app_name'' = PStr s \<longrightarrow> py_strip s \<noteq> []) \<longrightarrow>
        map_of app2 ''app_name'' = map_of app ''app_name''"
      using p n unfolding nm by auto
    moreover have "\<forall>k. k \<noteq> ''price'' \<and> k \<noteq> ''app_name'' \<longrightarrow> map_of app2 k = map_of app k"
      using p n by auto
    moreover have "prefix (map fst app) (map fst app2)"
      using p n by (blast intro: prefix_order.trans)
    ultimately show ?thesis
      unfolding name(3) by blast
  qed
qed

theorem C9_backfill_frame_witness:
  "map_of (fst (extract_shopify_reviews (ex_app_page ex_body_long) ex_app_blank_name 20 3 25)) ''price''
     = map_of ex_app_blank_name ''price'' \<and>
   map_of ex_app_blank_name ''price'' = Some (PStr ''$5/month'') \<and>
   map_of (fst (extract_shopify_reviews (ex_app_page ex_body_long) ex_app 20 3 25)) ''app_name''
     = map_of ex_app ''app_name'' \<and>
   map_of ex_app ''app_name'' = Some (PStr ''App X'') \<and>
   map_of (fst (extract_shopify_reviews (ex_app_page ex_body_long) ex_app 20 3 25)) ''price''
     = Some (PStr ''Free to install'') \<and>
   map_of (fst (extract_shopify_reviews (ex_app_page ex_body_long) ex_app 20 3 25)) ''category''
     = map_of ex_app ''category'' \<and>
   prefix (map fst ex_app)
     (map fst (fst (extract_shopify_reviews (ex_app_page ex_body_long) ex_app 20 3 25)))"
proof -
  have t1: "truthy (dict_get ex_app_blank_name ''price'')"
    by code_simp
  have g: "dict_get ex_app ''app_name'' = PStr ''App X''"
    by code_simp
  have s: "py_strip ''App X'' \<noteq> []"
    by code_simp
  have t2: "truthy (dict_get ex_app ''app_name'') \<and>
      (\<forall>s. dict_get ex_app ''app_name'' = PStr s \<longrightarrow> py_strip s \<noteq> [])"
    using s unfolding g by simp
  have k: "''category'' \<noteq> ''price'' \<and> ''category'' \<noteq> ''app_name''"
    by simp
  have v1: "map_of ex_app_blank_name ''price'' = Some (PStr ''$5/month'')"
    by code_simp
  have v2: "map_of ex_app ''app_name'' = Some (PStr ''App X'')"
    by code_simp
  have v3: "map_of (fst (extract_shopify_reviews (ex_app_page ex_body_long) ex_app 20 3 25)) ''price''
     = Some (PStr ''Free to install'')"
    by code_simp
  note a = C9_backfill_frame[of ex_app_blank_name "ex_app_page ex_body_long" 20 3 25]
  note b = C9_backfill_frame[of ex_app "ex_app_page ex_body_long" 20 3 25]
  note r1 = mp[OF a[THEN conjunct1] t1]
  note r2 = mp[OF b[THEN conjunct2, THEN conjunct1] t2]
  note r3 = mp[OF spec[OF b[THEN conjunct2, THEN conjunct2, THEN conjunct1], of "''category''"] k]
  note r4 = b[THEN conjunct2, THEN conjunct2, THEN conjunct2]
  show ?thesis
    by (intro conjI r1 v1 r2 v2 v3 r3 r4)
qed

text \<open>
  Claim C9 as stated fails on a name made of white space: the record's name \<open>" "\<close> is
  not empty, yet the harvester replaces it by the page heading (the test is
  \<open>app["app_name"].strip() == ""\<close>). The price, already set, is kept.
\<close>

theorem C9_counterexample:
  "map_of ex_app_blank_name ''app_name'' = Some (PStr '' '') \<and>
   fst (extract_shopify_reviews (ex_app_page ex_body_long) ex_app_blank_name 20 3 25)
     = [(''app_name'', PStr ''App X''), (''app_url'', PStr ''https://apps.shopify.com/app-x''),
        (''price'', PStr ''$5/month'')]"
  by code_simp

end
